theory Spec2Isabelle
  imports Main "HOL-Library.AList"
begin

section \<open>JavaScript values\<close>

text \<open>
  The comparison engine of \<^verbatim>\<open>comparisonSlice.ts\<close> works on values typed \<^verbatim>\<open>unknown\<close>:
  whatever \<^verbatim>\<open>JSON.parse\<close> gave for an instance's payload, plus \<^verbatim>\<open>undefined\<close>, which
  the path resolver returns for an absent property. An object is the list of its own
  properties in the order \<^verbatim>\<open>Object.keys\<close> enumerates them; its keys are distinct.
  Numbers are restricted to integers, printed in decimal. Inherited properties
  (members of \<^verbatim>\<open>Object.prototype\<close> and \<^verbatim>\<open>Array.prototype\<close> other than \<^verbatim>\<open>length\<close>)
  are not modelled: a key is looked up among the own properties only.
\<close>

datatype json =
    JUndef
  | JNull
  | JBool bool
  | JNum int
  | JStr string
  | JArr "json list"
  | JObj "(string \<times> json) list"

text \<open>The sentinel the engine stores for an instance that lacks the unit: the string literal
  \<^verbatim>\<open>'MISSING'\<close>.\<close>

abbreviation MISSING :: json where
  "MISSING \<equiv> JStr ''MISSING''"

text \<open>Truthiness, as \<^verbatim>\<open>if (x)\<close> and \<^verbatim>\<open>x && ...\<close> test it.\<close>

fun truthy :: "json \<Rightarrow> bool" where
  "truthy JUndef = False"
| "truthy JNull = False"
| "truthy (JBool b) = b"
| "truthy (JNum n) = (n \<noteq> 0)"
| "truthy (JStr s) = (s \<noteq> [])"
| "truthy (JArr xs) = True"
| "truthy (JObj kvs) = True"

text \<open>An optional string parameter (\<^verbatim>\<open>baseInstanceId?: string\<close>,
  \<^verbatim>\<open>identifierField?: string\<close>) is truthy when it is given and not empty.\<close>

fun truthy_str :: "string option \<Rightarrow> bool" where
  "truthy_str None = False"
| "truthy_str (Some s) = (s \<noteq> [])"

subsection \<open>Numbers and strings\<close>

fun show_nat :: "nat \<Rightarrow> string" where
  "show_nat n =
     (if n < 10 then [''0123456789'' ! n]
      else show_nat (n div 10) @ [''0123456789'' ! (n mod 10)])"

declare show_nat.simps [simp del]

definition show_int :: "int \<Rightarrow> string" where
  "show_int i = (if i < 0 then ''-'' @ show_nat (nat (- i)) else show_nat (nat i))"

fun join :: "string \<Rightarrow> string list \<Rightarrow> string" where
  "join sep [] = []"
| "join sep [x] = x"
| "join sep (x # y # ys) = x @ sep @ join sep (y # ys)"

text \<open>\<^verbatim>\<open>path.split('.')\<close>: the empty string splits into one empty segment.\<close>

fun split_on :: "char \<Rightarrow> string \<Rightarrow> string list" where
  "split_on d [] = [[]]"
| "split_on d (c # cs) =
     (if c = d then [] # split_on d cs
      else (case split_on d cs of
              [] \<Rightarrow> [[c]]
            | w # ws \<Rightarrow> (c # w) # ws))"

text \<open>\<^verbatim>\<open>String(x)\<close>. An array prints its elements joined by commas, \<^verbatim>\<open>null\<close> and
  \<^verbatim>\<open>undefined\<close> elements as the empty string.\<close>

fun String_of :: "json \<Rightarrow> string"
  and String_elems :: "json list \<Rightarrow> string list" where
  "String_of JUndef = ''undefined''"
| "String_of JNull = ''null''"
| "String_of (JBool b) = (if b then ''true'' else ''false'')"
| "String_of (JNum n) = show_int n"
| "String_of (JStr s) = s"
| "String_of (JArr xs) = join '','' (String_elems xs)"
| "String_of (JObj kvs) = ''[object Object]''"
| "String_elems [] = []"
| "String_elems (x # xs) =
     (case x of JUndef \<Rightarrow> [] | JNull \<Rightarrow> [] | _ \<Rightarrow> String_of x) # String_elems xs"

subsection \<open>\<^verbatim>\<open>JSON.stringify\<close>\<close>

text \<open>A string is quoted with the escapes of the standard: the double quote and the
  backslash get a backslash, the control characters their short form or \<^verbatim>\<open>\u00XX\<close>.\<close>

definition escape_char :: "char \<Rightarrow> string" where
  "escape_char c =
     (if c = CHR 0x22 then [CHR 0x5C, CHR 0x22]
      else if c = CHR 0x5C then [CHR 0x5C, CHR 0x5C]
      else if c = CHR 0x08 then [CHR 0x5C, CHR ''b'']
      else if c = CHR 0x0C then [CHR 0x5C, CHR ''f'']
      else if c = CHR 0x0A then [CHR 0x5C, CHR ''n'']
      else if c = CHR 0x0D then [CHR 0x5C, CHR ''r'']
      else if c = CHR 0x09 then [CHR 0x5C, CHR ''t'']
      else if (of_char c :: nat) < 32 then
        [CHR 0x5C, CHR ''u'', CHR ''0'', CHR ''0'',
         ''0123456789abcdef'' ! ((of_char c :: nat) div 16),
         ''0123456789abcdef'' ! ((of_char c :: nat) mod 16)]
      else [c])"

definition quote :: "string \<Rightarrow> string" where
  "quote s = [CHR 0x22] @ concat (map escape_char s) @ [CHR 0x22]"

text \<open>\<^verbatim>\<open>JSON.stringify(undefined)\<close> is \<^verbatim>\<open>undefined\<close>, not a string: \<open>None\<close>. Inside an
  array \<^verbatim>\<open>undefined\<close> prints as \<^verbatim>\<open>null\<close>; inside an object the property is left out.
  Properties are printed in the object's own order: nothing sorts the keys.\<close>

fun stringify :: "json \<Rightarrow> string option"
  and stringify_elems :: "json list \<Rightarrow> string list"
  and stringify_props :: "(string \<times> json) list \<Rightarrow> string list" where
  "stringify JUndef = None"
| "stringify JNull = Some ''null''"
| "stringify (JBool b) = Some (if b then ''true'' else ''false'')"
| "stringify (JNum n) = Some (show_int n)"
| "stringify (JStr s) = Some (quote s)"
| "stringify (JArr xs) = Some (''['' @ join '','' (stringify_elems xs) @ '']'')"
| "stringify (JObj kvs) = Some (''{'' @ join '','' (stringify_props kvs) @ ''}'')"
| "stringify_elems [] = []"
| "stringify_elems (x # xs) =
     (case stringify x of None \<Rightarrow> ''null'' | Some s \<Rightarrow> s) # stringify_elems xs"
| "stringify_props [] = []"
| "stringify_props ((k, v) # kvs) =
     (case stringify v of
        None \<Rightarrow> stringify_props kvs
      | Some s \<Rightarrow> (quote k @ '':'' @ s) # stringify_props kvs)"

subsection \<open>Objects, sets and maps\<close>

text \<open>A key is an array index when it is the decimal numeral, without leading zeros, of
  an integer below \<open>2^32 - 1\<close>. An object enumerates such keys first, in ascending
  numeric order, and the other keys after them in insertion order.\<close>

definition digit_val :: "char \<Rightarrow> nat" where
  "digit_val c = of_char c - 48"

definition parse_nat :: "string \<Rightarrow> nat" where
  "parse_nat s = foldl (\<lambda>n c. 10 * n + digit_val c) 0 s"

definition array_index :: "string \<Rightarrow> nat option" where
  "array_index k =
     (if k \<noteq> [] \<and> list_all (\<lambda>c. c \<in> set ''0123456789'') k
         \<and> show_nat (parse_nat k) = k \<and> parse_nat k < 2 ^ 32 - 1
      then Some (parse_nat k) else None)"

text \<open>\<^verbatim>\<open>obj[k]\<close>: an absent property reads as \<^verbatim>\<open>undefined\<close>.\<close>

definition obj_get :: "(string \<times> json) list \<Rightarrow> string \<Rightarrow> json" where
  "obj_get kvs k = (case map_of kvs k of None \<Rightarrow> JUndef | Some v \<Rightarrow> v)"

text \<open>\<^verbatim>\<open>arr[k]\<close> for a string key: an element or the length.\<close>

definition arr_get :: "json list \<Rightarrow> string \<Rightarrow> json" where
  "arr_get xs k =
     (if k = ''length'' then JNum (int (length xs))
      else (case array_index k of
              None \<Rightarrow> JUndef
            | Some i \<Rightarrow> if i < length xs then xs ! i else JUndef))"

text \<open>\<^verbatim>\<open>obj[k] = v\<close>: an existing property keeps its place; a new array-index key goes
  to its place among the index keys, any other new key to the end.\<close>

fun insert_index :: "nat \<Rightarrow> string \<Rightarrow> 'a \<Rightarrow> (string \<times> 'a) list \<Rightarrow> (string \<times> 'a) list" where
  "insert_index n k v [] = [(k, v)]"
| "insert_index n k v (p # ps) =
     (case array_index (fst p) of
        None \<Rightarrow> (k, v) # p # ps
      | Some m \<Rightarrow> if m < n then p # insert_index n k v ps else (k, v) # p # ps)"

definition obj_set :: "(string \<times> 'a) list \<Rightarrow> string \<Rightarrow> 'a \<Rightarrow> (string \<times> 'a) list" where
  "obj_set kvs k v =
     (if k \<in> fst ` set kvs then AList.update k v kvs
      else (case array_index k of
              None \<Rightarrow> kvs @ [(k, v)]
            | Some n \<Rightarrow> insert_index n k v kvs))"

text \<open>The order in which an object enumerates its keys, as a relation between two keys: an
  array index comes before every larger array index and before every other key; the other
  keys come in the order of their insertion, so any of them can come before any other. A
  list of keys is in enumeration order when it has no duplicates and each key comes before
  all the later ones: writing an empty object key by key in that order gives the keys back
  in the same order.\<close>

definition before :: "string \<Rightarrow> string \<Rightarrow> bool" where
  "before a b =
     (case array_index a of
        Some m \<Rightarrow> (case array_index b of Some n \<Rightarrow> m < n | None \<Rightarrow> True)
      | None \<Rightarrow> array_index b = None)"

definition enumerationOrder :: "string list \<Rightarrow> bool" where
  "enumerationOrder ks = (distinct ks \<and> sorted_wrt before ks)"

text \<open>\<^verbatim>\<open>set.add(x)\<close> on a \<^verbatim>\<open>Set\<close>, which iterates in insertion order.\<close>

definition set_add :: "'a list \<Rightarrow> 'a \<Rightarrow> 'a list" where
  "set_add xs x = (if x \<in> set xs then xs else xs @ [x])"

text \<open>\<^verbatim>\<open>map.set(k, v)\<close> and \<^verbatim>\<open>map.get(k)\<close> on a \<^verbatim>\<open>Map\<close> with string keys.\<close>

definition map_set :: "(string \<times> 'a) list \<Rightarrow> string \<Rightarrow> 'a \<Rightarrow> (string \<times> 'a) list" where
  "map_set m k v = AList.update k v m"

definition map_get :: "(string \<times> 'a) list \<Rightarrow> string \<Rightarrow> 'a option" where
  "map_get m k = map_of m k"

section \<open>Path collector and path resolver\<close>

text \<open>\<^verbatim>\<open>collectPaths\<close>: \<open>traverse\<close> descends into plain objects only (not arrays, not
  \<^verbatim>\<open>null\<close>) and adds every dotted path it meets to a \<^verbatim>\<open>Set\<close>. The prefix test
  \<^verbatim>\<open>currentPath ? ... : key\<close> is a truthiness test: an empty prefix adds no dot.\<close>

fun traverse :: "json \<Rightarrow> string \<Rightarrow> string list \<Rightarrow> string list"
  and traverse_keys :: "(string \<times> json) list \<Rightarrow> string \<Rightarrow> string list \<Rightarrow> string list" where
  "traverse (JObj kvs) currentPath paths = traverse_keys kvs currentPath paths"
| "traverse JUndef currentPath paths = paths"
| "traverse JNull currentPath paths = paths"
| "traverse (JBool b) currentPath paths = paths"
| "traverse (JNum n) currentPath paths = paths"
| "traverse (JStr s) currentPath paths = paths"
| "traverse (JArr xs) currentPath paths = paths"
| "traverse_keys [] currentPath paths = paths"
| "traverse_keys ((key, v) # kvs) currentPath paths =
     (let newPath = (if currentPath \<noteq> [] then currentPath @ ''.'' @ key else key)
      in traverse_keys kvs currentPath (traverse v newPath (set_add paths newPath)))"

definition collectPaths :: "json list \<Rightarrow> string list" where
  "collectPaths objects = foldl (\<lambda>paths obj. traverse obj [] paths) [] objects"

text \<open>\<^verbatim>\<open>getValueAtPath\<close>: the reducer reads a property of a truthy object or array and
  gives \<^verbatim>\<open>undefined\<close> for anything else.\<close>

definition read_key :: "json \<Rightarrow> string \<Rightarrow> json" where
  "read_key current key =
     (if truthy current then
        (case current of
           JObj kvs \<Rightarrow> obj_get kvs key
         | JArr xs \<Rightarrow> arr_get xs key
         | _ \<Rightarrow> JUndef)
      else JUndef)"

definition getValueAtPath :: "json \<Rightarrow> string \<Rightarrow> json" where
  "getValueAtPath obj path = foldl read_key obj (split_on CHR ''.'' path)"

section \<open>Data model\<close>

datatype result_type = Added | Deleted | Edited | Unchanged

record ComparisonResult =
  path :: string
  type :: result_type
  values' :: "(string \<times> json) list"
  affectedInstances :: "string list"
  description :: string

text \<open>Of the ten fields of the interface \<^verbatim>\<open>FeatureToggle\<close> the engine reads two.\<close>

record FeatureToggle =
  FeatureName :: string
  CurrentValue :: bool

text \<open>What the four comparison functions keep while they walk the instance ids for one
  unit: \<^verbatim>\<open>values\<close>, \<^verbatim>\<open>affectedInstances\<close>, \<^verbatim>\<open>hasBaseValue\<close>, \<^verbatim>\<open>baseValue\<close>.\<close>

type_synonym collected = "(string \<times> json) list \<times> string list \<times> bool \<times> json"

abbreviation valuesOf :: "collected \<Rightarrow> (string \<times> json) list" where
  "valuesOf c \<equiv> fst c"

abbreviation affectedOf :: "collected \<Rightarrow> string list" where
  "affectedOf c \<equiv> fst (snd c)"

abbreviation hasBaseValueOf :: "collected \<Rightarrow> bool" where
  "hasBaseValueOf c \<equiv> fst (snd (snd c))"

abbreviation baseValueOf :: "collected \<Rightarrow> json" where
  "baseValueOf c \<equiv> snd (snd (snd c))"

definition quoted :: "string \<Rightarrow> string" where
  "quoted s = [CHR 0x22] @ s @ [CHR 0x22]"

section \<open>\<^verbatim>\<open>compareFeatureToggles\<close>\<close>

definition new_Map :: "(string \<times> 'a) list \<Rightarrow> (string \<times> 'a) list" where
  "new_Map entries = foldl (\<lambda>m kv. map_set m (fst kv) (snd kv)) [] entries"

text \<open>The first loop: one \<^verbatim>\<open>Map\<close> from feature name to feature per instance, and the
  \<^verbatim>\<open>Set\<close> of all feature names. A missing payload counts as the empty array.\<close>

definition buildFeatureMaps ::
  "(string \<times> FeatureToggle list) list \<Rightarrow> string list
     \<Rightarrow> string list \<times> (string \<times> (string \<times> FeatureToggle) list) list" where
  "buildFeatureMaps instanceData instanceIds =
     foldl (\<lambda>(allFeatureNames, instanceFeatureMaps) instanceId.
        let features = (case map_of instanceData instanceId of None \<Rightarrow> [] | Some fs \<Rightarrow> fs);
            featureMap = new_Map (map (\<lambda>f. (FeatureName f, f)) features)
        in (foldl (\<lambda>names f. set_add names (FeatureName f)) allFeatureNames features,
            map_set instanceFeatureMaps instanceId featureMap))
       ([], []) instanceIds"

definition toggleCollect ::
  "(string \<times> (string \<times> FeatureToggle) list) list \<Rightarrow> string list \<Rightarrow> string option
     \<Rightarrow> string \<Rightarrow> collected" where
  "toggleCollect instanceFeatureMaps instanceIds baseInstanceId featureName =
     foldl (\<lambda>(values, affected, hasBaseValue, baseValue) instanceId.
        let feature = (case map_get instanceFeatureMaps instanceId of
                         None \<Rightarrow> None
                       | Some featureMap \<Rightarrow> map_get featureMap featureName)
        in (case feature of
              Some f \<Rightarrow>
                (obj_set values instanceId (JBool (CurrentValue f)),
                 affected @ [instanceId],
                 (if truthy_str baseInstanceId \<and> Some instanceId = baseInstanceId
                  then True else hasBaseValue),
                 (if truthy_str baseInstanceId \<and> Some instanceId = baseInstanceId
                  then JBool (CurrentValue f) else baseValue))
            | None \<Rightarrow> (obj_set values instanceId MISSING, affected, hasBaseValue, baseValue)))
       ([], [], False, JUndef) instanceIds"

text \<open>The difference test of the feature toggles compares the raw values: \<^verbatim>\<open>!==\<close>
  against the base, a \<^verbatim>\<open>Set\<close> of the values without a base.\<close>

definition toggleHasDifference :: "collected \<Rightarrow> string list \<Rightarrow> string option \<Rightarrow> bool" where
  "toggleHasDifference c instanceIds baseInstanceId =
     (case c of (values, affected, hasBaseValue, baseValue) \<Rightarrow>
        if truthy_str baseInstanceId \<and> hasBaseValue then
          foldl (\<lambda>hasDifference instanceId.
             if Some instanceId \<noteq> baseInstanceId then
               (let otherValue = obj_get values instanceId
                in if otherValue \<noteq> baseValue \<and> otherValue \<noteq> MISSING then True
                   else if otherValue = MISSING then True
                   else hasDifference)
             else hasDifference) False instanceIds
        else length (remdups (map snd values)) > 1)"

definition toggleClassify ::
  "collected \<Rightarrow> string list \<Rightarrow> string option \<Rightarrow> string \<Rightarrow> result_type \<times> string" where
  "toggleClassify c instanceIds baseInstanceId featureName =
     (case c of (values, affected, hasBaseValue, baseValue) \<Rightarrow>
        let missingInstances = filter (\<lambda>id. obj_get values id = MISSING) instanceIds;
            presentInstances = filter (\<lambda>id. obj_get values id \<noteq> MISSING) instanceIds
        in
        if length missingInstances > 0 \<and> length presentInstances > 0 then
          (if truthy_str baseInstanceId then
             (if obj_get values (the baseInstanceId) = MISSING then
                (Added, ''Feature '' @ quoted featureName @ '' added in ''
                   @ show_nat (length presentInstances) @ '' instance(s) (not present in base)'')
              else
                (Deleted, ''Feature '' @ quoted featureName @ '' deleted in ''
                   @ show_nat (length missingInstances)
                   @ '' instance(s) (present in base with value '' @ String_of baseValue @ '')''))
           else
             (if length missingInstances < length presentInstances then
                (Added, ''Feature '' @ quoted featureName @ '' added in ''
                   @ show_nat (length presentInstances) @ '' instance(s), missing in ''
                   @ show_nat (length missingInstances))
              else
                (Deleted, ''Feature '' @ quoted featureName @ '' deleted in ''
                   @ show_nat (length missingInstances) @ '' instance(s), present in ''
                   @ show_nat (length presentInstances))))
        else if length presentInstances = length instanceIds then
          (if truthy_str baseInstanceId \<and> hasBaseValue then
             (let differentInstances =
                    filter (\<lambda>id. Some id \<noteq> baseInstanceId \<and> obj_get values id \<noteq> baseValue)
                      instanceIds
              in (Edited, ''Feature '' @ quoted featureName @ '' differs from base value ''
                    @ String_of baseValue @ '' in '' @ show_nat (length differentInstances)
                    @ '' instance(s)''))
           else (Edited, ''Feature '' @ quoted featureName
                   @ '' has inconsistent values across instances''))
        else (Edited, []))"

text \<open>The body of the loop over the feature names: one result or none. A feature that some
  instance lacks is reported whatever the difference test says.\<close>

definition toggleUnit ::
  "(string \<times> (string \<times> FeatureToggle) list) list \<Rightarrow> string list \<Rightarrow> string option
     \<Rightarrow> string \<Rightarrow> ComparisonResult option" where
  "toggleUnit instanceFeatureMaps instanceIds baseInstanceId featureName =
     (let c = toggleCollect instanceFeatureMaps instanceIds baseInstanceId featureName;
          hasDifference = toggleHasDifference c instanceIds baseInstanceId
      in if hasDifference \<or> length (fst (snd c)) \<noteq> length instanceIds then
           (let td = toggleClassify c instanceIds baseInstanceId featureName
            in Some \<lparr> path = featureName, type = fst td, values' = fst c,
                      affectedInstances = fst (snd c), description = snd td \<rparr>)
         else None)"

definition compareFeatureToggles ::
  "(string \<times> FeatureToggle list) list \<Rightarrow> string list \<Rightarrow> string option
     \<Rightarrow> ComparisonResult list" where
  "compareFeatureToggles instanceData instanceIds baseInstanceId =
     (let (allFeatureNames, instanceFeatureMaps) = buildFeatureMaps instanceData instanceIds
      in List.map_filter (toggleUnit instanceFeatureMaps instanceIds baseInstanceId)
           allFeatureNames)"

section \<open>\<^verbatim>\<open>compareGenericData\<close>\<close>

text \<open>\<^verbatim>\<open>compareGenericData\<close>, \<^verbatim>\<open>compareCustomObjectData\<close> and \<^verbatim>\<open>compareCustomArrayData\<close>
  repeat the same three blocks for each unit; the blocks are written once here. The first two
  functions collect the values with the same loop: the value at the path in each instance's
  payload, \<^verbatim>\<open>'MISSING'\<close> where the payload is falsy or the path leads to \<^verbatim>\<open>undefined\<close>.\<close>

definition pathCollect ::
  "(string \<times> json) list \<Rightarrow> string list \<Rightarrow> string option \<Rightarrow> string \<Rightarrow> collected" where
  "pathCollect instanceData instanceIds baseInstanceId path' =
     foldl (\<lambda>(values, affected, hasBaseValue, baseValue) instanceId.
        let data = obj_get instanceData instanceId
        in if truthy data then
             (let value = getValueAtPath data path'
              in if value \<noteq> JUndef then
                   (obj_set values instanceId value,
                    affected @ [instanceId],
                    (if truthy_str baseInstanceId \<and> Some instanceId = baseInstanceId
                     then True else hasBaseValue),
                    (if truthy_str baseInstanceId \<and> Some instanceId = baseInstanceId
                     then value else baseValue))
                 else (obj_set values instanceId MISSING, affected, hasBaseValue, baseValue))
           else (obj_set values instanceId MISSING, affected, hasBaseValue, baseValue))
       ([], [], False, JUndef) instanceIds"

text \<open>The difference test of the three functions: against the base, an instance differs when
  its \<^verbatim>\<open>JSON.stringify\<close> differs from the base's or when its entry is \<^verbatim>\<open>'MISSING'\<close>;
  without a base value, the unit differs when the \<^verbatim>\<open>JSON.stringify\<close> outputs of all
  entries (the sentinel included) are not all the same.\<close>

definition hasDifference :: "collected \<Rightarrow> string list \<Rightarrow> string option \<Rightarrow> bool" where
  "hasDifference c instanceIds baseInstanceId =
     (case c of (values, affected, hasBaseValue, baseValue) \<Rightarrow>
        if truthy_str baseInstanceId \<and> hasBaseValue then
          foldl (\<lambda>hasDiff instanceId.
             if Some instanceId \<noteq> baseInstanceId then
               (let otherValue = obj_get values instanceId
                in if stringify otherValue \<noteq> stringify baseValue \<and> otherValue \<noteq> MISSING
                   then True
                   else if otherValue = MISSING then True
                   else hasDiff)
             else hasDiff) False instanceIds
        else length (remdups (map (\<lambda>v. stringify v) (map snd values))) > 1)"

text \<open>The classification of the three functions. They differ in the wording only: \<open>subject\<close>
  is the unit as the description names it, \<open>differs\<close> the phrase of the edited case with
  a base.\<close>

definition classify ::
  "string \<Rightarrow> string \<Rightarrow> collected \<Rightarrow> string list \<Rightarrow> string option
     \<Rightarrow> result_type \<times> string" where
  "classify subject differs c instanceIds baseInstanceId =
     (case c of (values, affected, hasBaseValue, baseValue) \<Rightarrow>
        let missingInstances = filter (\<lambda>id. obj_get values id = MISSING) instanceIds;
            presentInstances = filter (\<lambda>id. obj_get values id \<noteq> MISSING) instanceIds
        in
        if length missingInstances > 0 \<and> length presentInstances > 0 then
          (if truthy_str baseInstanceId then
             (if obj_get values (the baseInstanceId) = MISSING then
                (Added, subject @ '' added in '' @ show_nat (length presentInstances)
                   @ '' instance(s) (not present in base)'')
              else
                (Deleted, subject @ '' deleted in '' @ show_nat (length missingInstances)
                   @ '' instance(s) (present in base)''))
           else
             (if length missingInstances < length presentInstances then
                (Added, subject @ '' added in '' @ show_nat (length presentInstances)
                   @ '' instance(s), missing in '' @ show_nat (length missingInstances))
              else
                (Deleted, subject @ '' deleted in '' @ show_nat (length missingInstances)
                   @ '' instance(s), present in '' @ show_nat (length presentInstances))))
        else if length presentInstances = length instanceIds then
          (if truthy_str baseInstanceId \<and> hasBaseValue then
             (let differentInstances =
                    filter (\<lambda>id. Some id \<noteq> baseInstanceId
                                  \<and> stringify (obj_get values id) \<noteq> stringify baseValue)
                      instanceIds
              in (Edited, subject @ differs @ show_nat (length differentInstances)
                    @ '' instance(s)''))
           else (Edited, subject @ '' has inconsistent values across instances''))
        else (Edited, []))"

text \<open>The body of \<^verbatim>\<open>allPaths.forEach\<close>: one result for a differing path, none otherwise.\<close>

definition genericUnit ::
  "(string \<times> json) list \<Rightarrow> string list \<Rightarrow> string option \<Rightarrow> string
     \<Rightarrow> ComparisonResult option" where
  "genericUnit instanceData instanceIds baseInstanceId path' =
     (let c = pathCollect instanceData instanceIds baseInstanceId path'
      in if hasDifference c instanceIds baseInstanceId then
           (let td = classify (''Setting at '' @ quoted path') '' differs from base value in ''
                       c instanceIds baseInstanceId
            in Some \<lparr> path = path', type = fst td, values' = fst c,
                      affectedInstances = fst (snd c), description = snd td \<rparr>)
         else None)"

definition compareGenericData ::
  "(string \<times> json) list \<Rightarrow> string list \<Rightarrow> string option \<Rightarrow> ComparisonResult list" where
  "compareGenericData instanceData instanceIds baseInstanceId =
     (let allPaths = collectPaths (map snd instanceData)
      in List.map_filter (genericUnit instanceData instanceIds baseInstanceId) allPaths)"

section \<open>Custom comparison types\<close>

text \<open>Of the twelve fields of \<^verbatim>\<open>CustomComparisonType\<close> the comparison reads four.\<close>

record CustomComparisonType =
  id :: string
  label :: string
  comparisonFields :: "string list"
  identifierField :: "string option"

subsection \<open>\<^verbatim>\<open>compareCustomArrayData\<close>\<close>

text \<open>A record of an instance's array is an object: \<^verbatim>\<open>Record<string, unknown>\<close>. The first
  loop skips a record whose identifier, after \<^verbatim>\<open>String(...)\<close>, is the empty string.\<close>

definition buildItemMaps ::
  "(string \<times> (string \<times> json) list list) list \<Rightarrow> string list \<Rightarrow> string
     \<Rightarrow> string list \<times> (string \<times> (string \<times> (string \<times> json) list) list) list" where
  "buildItemMaps instanceData instanceIds idField =
     foldl (\<lambda>(allItemIds, instanceItemMaps) instanceId.
        let items = (case map_of instanceData instanceId of None \<Rightarrow> [] | Some xs \<Rightarrow> xs);
            (allItemIds', itemMap) =
               foldl (\<lambda>(ids, m) item.
                  let identifier = String_of (obj_get item idField)
                  in if identifier \<noteq> [] then (set_add ids identifier, map_set m identifier item)
                     else (ids, m))
                 (allItemIds, []) items
        in (allItemIds', map_set instanceItemMaps instanceId itemMap))
       ([], []) instanceIds"

text \<open>The value of an item in an instance is the object of its comparison fields only.\<close>

definition itemValues :: "string list \<Rightarrow> (string \<times> json) list \<Rightarrow> json" where
  "itemValues cmpFields item =
     JObj (foldl (\<lambda>vs field. obj_set vs field (getValueAtPath (JObj item) field)) [] cmpFields)"

definition itemCollect ::
  "(string \<times> (string \<times> (string \<times> json) list) list) list \<Rightarrow> string list \<Rightarrow> string list
     \<Rightarrow> string option \<Rightarrow> string \<Rightarrow> collected" where
  "itemCollect instanceItemMaps cmpFields instanceIds baseInstanceId itemId =
     foldl (\<lambda>(values, affected, hasBaseValue, baseValue) instanceId.
        let item = (case map_get instanceItemMaps instanceId of
                      None \<Rightarrow> None
                    | Some itemMap \<Rightarrow> map_get itemMap itemId)
        in (case item of
              Some it \<Rightarrow>
                (obj_set values instanceId (itemValues cmpFields it),
                 affected @ [instanceId],
                 (if truthy_str baseInstanceId \<and> Some instanceId = baseInstanceId
                  then True else hasBaseValue),
                 (if truthy_str baseInstanceId \<and> Some instanceId = baseInstanceId
                  then itemValues cmpFields it else baseValue))
            | None \<Rightarrow> (obj_set values instanceId MISSING, affected, hasBaseValue, baseValue)))
       ([], [], False, JUndef) instanceIds"

definition arrayUnit ::
  "(string \<times> (string \<times> (string \<times> json) list) list) list \<Rightarrow> string list
     \<Rightarrow> CustomComparisonType \<Rightarrow> string option \<Rightarrow> string \<Rightarrow> ComparisonResult option" where
  "arrayUnit instanceItemMaps instanceIds customType baseInstanceId itemId =
     (let c = itemCollect instanceItemMaps (comparisonFields customType) instanceIds
                baseInstanceId itemId
      in if hasDifference c instanceIds baseInstanceId then
           (let td = classify (label customType @ '' item '' @ quoted itemId)
                       '' differs from base in '' c instanceIds baseInstanceId
            in Some \<lparr> path = itemId, type = fst td, values' = fst c,
                      affectedInstances = fst (snd c), description = snd td \<rparr>)
         else None)"

definition compareCustomArrayData ::
  "(string \<times> (string \<times> json) list list) list \<Rightarrow> string list \<Rightarrow> CustomComparisonType
     \<Rightarrow> string option \<Rightarrow> ComparisonResult list" where
  "compareCustomArrayData instanceData instanceIds customType baseInstanceId =
     (if \<not> truthy_str (identifierField customType) then []
      else
        (let (allItemIds, instanceItemMaps) =
               buildItemMaps instanceData instanceIds (the (identifierField customType))
         in List.map_filter (arrayUnit instanceItemMaps instanceIds customType baseInstanceId)
              allItemIds))"

subsection \<open>\<^verbatim>\<open>compareCustomObjectData\<close>\<close>

definition objectUnit ::
  "(string \<times> json) list \<Rightarrow> string list \<Rightarrow> CustomComparisonType \<Rightarrow> string option
     \<Rightarrow> string \<Rightarrow> ComparisonResult option" where
  "objectUnit instanceData instanceIds customType baseInstanceId fieldPath =
     (let c = pathCollect instanceData instanceIds baseInstanceId fieldPath
      in if hasDifference c instanceIds baseInstanceId then
           (let td = classify (label customType @ '' field '' @ quoted fieldPath)
                       '' differs from base value in '' c instanceIds baseInstanceId
            in Some \<lparr> path = fieldPath, type = fst td, values' = fst c,
                      affectedInstances = fst (snd c), description = snd td \<rparr>)
         else None)"

definition compareCustomObjectData ::
  "(string \<times> json) list \<Rightarrow> string list \<Rightarrow> CustomComparisonType \<Rightarrow> string option
     \<Rightarrow> ComparisonResult list" where
  "compareCustomObjectData instanceData instanceIds customType baseInstanceId =
     List.map_filter (objectUnit instanceData instanceIds customType baseInstanceId)
       (comparisonFields customType)"

section \<open>Sessions\<close>

record Summary =
  totalDifferences :: nat
  added :: nat
  deleted :: nat
  edited :: nat

record ComparisonSession =
  id :: string
  name :: string
  instanceIds :: "string list"
  endpoint :: string
  timestamp :: string
  results :: "ComparisonResult list"
  summary :: Summary

record BuiltInEndpoint =
  fetchEndpoint :: string
  saveEndpoint :: string
  requestBody :: "json option"

record ComparisonState =
  sessions :: "ComparisonSession list"
  activeSessionId :: "string option"
  selectedInstances :: "string list"
  baseInstanceId :: "string option"
  currentFetchEndpoint :: string
  currentSaveEndpoint :: string
  comparisonType :: string
  customTypes :: "CustomComparisonType list"
  builtInEndpoints :: "(string \<times> BuiltInEndpoint) list"
  loading :: bool
  error :: "string option"

text \<open>The payload of the action \<^verbatim>\<open>createComparisonSession\<close>. The instance data is an object
  from instance id to that instance's payload.\<close>

record Payload =
  name :: string
  instanceIds :: "string list"
  endpoint :: string
  instanceData :: "(string \<times> json) list"

text \<open>What the reducer reads from its environment: \<^verbatim>\<open>Date.now()\<close> in milliseconds and
  \<^verbatim>\<open>new Date().toISOString()\<close>.\<close>

record Clock =
  now :: nat
  isoString :: string

text \<open>What the reducer does besides updating the state: it writes the session list to the
  local storage.\<close>

datatype effect = SaveSessions "ComparisonSession list"

text \<open>The reducer casts an instance's payload, without a check, to the type its comparison
  function declares: \<^verbatim>\<open>FeatureToggle[]\<close> or \<^verbatim>\<open>Record<string, unknown>[]\<close>. The casts are
  partial here. A truthy payload that is not an array makes the comparison function throw
  in its first loop (\<^verbatim>\<open>features.map\<close>, \<^verbatim>\<open>items.forEach\<close> is not a function), and the reducer
  ends without a new state: \<open>TypeError\<close>. An array with an element outside the element
  type is outside the declared types of the comparison functions, and the run is not
  modelled further: \<open>IllTypedPayload\<close>.\<close>

datatype failure = TypeError | IllTypedPayload

fun as_FeatureToggle :: "json \<Rightarrow> FeatureToggle option" where
  "as_FeatureToggle (JObj kvs) =
     (case obj_get kvs ''FeatureName'' of
        JStr n \<Rightarrow>
          (case obj_get kvs ''CurrentValue'' of
             JBool b \<Rightarrow> Some \<lparr> FeatureName = n, CurrentValue = b \<rparr>
           | _ \<Rightarrow> None)
      | _ \<Rightarrow> None)"
| "as_FeatureToggle _ = None"

fun as_Record :: "json \<Rightarrow> (string \<times> json) list option" where
  "as_Record (JObj kvs) = Some kvs"
| "as_Record _ = None"

fun as_Array :: "(json \<Rightarrow> 'a option) \<Rightarrow> json \<Rightarrow> failure + 'a list" where
  "as_Array f (JArr xs) =
     (case those (map f xs) of None \<Rightarrow> Inl IllTypedPayload | Some ys \<Rightarrow> Inr ys)"
| "as_Array f _ = Inl TypeError"



text \<open>The loop that copies the truthy payloads of the selected instances into a new object,
  with and without a cast.\<close>

definition copyData :: "(string \<times> json) list \<Rightarrow> string list \<Rightarrow> (string \<times> json) list" where
  "copyData data ids =
     foldl (\<lambda>d i. if truthy (obj_get data i) then obj_set d i (obj_get data i) else d) [] ids"

definition castData ::
  "(json \<Rightarrow> failure + 'a) \<Rightarrow> (string \<times> json) list \<Rightarrow> string list
     \<Rightarrow> failure + (string \<times> 'a) list" where
  "castData cast data ids =
     foldl (\<lambda>acc i.
        case acc of
          Inl e \<Rightarrow> Inl e
        | Inr d \<Rightarrow>
            if truthy (obj_get data i) then
              (case cast (obj_get data i) of
                 Inl e \<Rightarrow> Inl e
               | Inr x \<Rightarrow> Inr (obj_set d i x))
            else Inr d) (Inr []) ids"

text \<open>The choice of the comparison function, by the comparison type of the state. The base
  instance is passed as \<^verbatim>\<open>state.baseInstanceId || undefined\<close>.\<close>

definition runComparison :: "ComparisonState \<Rightarrow> Payload \<Rightarrow> failure + ComparisonResult list" where
  "runComparison state payload =
     (let ids = Payload.instanceIds payload;
          data = instanceData payload;
          base = (if truthy_str (baseInstanceId state) then baseInstanceId state else None);
          customType = find (\<lambda>t. CustomComparisonType.id t = comparisonType state)
                         (customTypes state)
      in
      if comparisonType state = ''featureToggle'' then
        (case castData (as_Array as_FeatureToggle) data ids of
           Inl e \<Rightarrow> Inl e
         | Inr featureToggleData \<Rightarrow> Inr (compareFeatureToggles featureToggleData ids base))
      else if customType \<noteq> None \<and> truthy_str (identifierField (the customType)) then
        (case castData (as_Array as_Record) data ids of
           Inl e \<Rightarrow> Inl e
         | Inr customArrayData \<Rightarrow>
             Inr (compareCustomArrayData customArrayData ids (the customType) base))
      else if customType \<noteq> None \<and> length (comparisonFields (the customType)) > 0 then
        Inr (compareCustomObjectData (copyData data ids) ids (the customType) base)
      else
        Inr (compareGenericData (copyData data ids) ids base))"

definition summarize :: "ComparisonResult list \<Rightarrow> Summary" where
  "summarize rs =
     \<lparr> totalDifferences = length rs,
       added = length (filter (\<lambda>r. type r = Added) rs),
       deleted = length (filter (\<lambda>r. type r = Deleted) rs),
       edited = length (filter (\<lambda>r. type r = Edited) rs) \<rparr>"

text \<open>The reducer. With fewer than two instance ids it sets the error and returns; otherwise
  it compares, appends one session, makes it the active one and saves the list.\<close>

definition createComparisonSession ::
  "ComparisonState \<Rightarrow> Payload \<Rightarrow> Clock \<Rightarrow> failure + ComparisonState \<times> effect list" where
  "createComparisonSession state payload clock =
     (if length (Payload.instanceIds payload) < 2 then
        Inr (state\<lparr> error := Some ''At least 2 instances are required for comparison'' \<rparr>, [])
      else
        (case runComparison state payload of
           Inl e \<Rightarrow> Inl e
         | Inr rs \<Rightarrow>
             (let session = \<lparr> ComparisonSession.id = show_nat (now clock),
                              ComparisonSession.name = Payload.name payload,
                              ComparisonSession.instanceIds = Payload.instanceIds payload,
                              ComparisonSession.endpoint = Payload.endpoint payload,
                              timestamp = isoString clock,
                              results = rs,
                              summary = summarize rs \<rparr>;
                  sessions' = sessions state @ [session]
              in Inr (state\<lparr> sessions := sessions',
                              activeSessionId := Some (ComparisonSession.id session) \<rparr>,
                      [SaveSessions sessions']))))"

section \<open>The initial state and example inputs\<close>

text \<open>\<^verbatim>\<open>initialState\<close>, from what the local storage held: the sessions, the custom types
  and the built-in endpoints (with their defaults when none were stored).\<close>

definition defaultBuiltInEndpoints :: "(string \<times> BuiltInEndpoint) list" where
  "defaultBuiltInEndpoints =
     [(''settings'', \<lparr> fetchEndpoint = ''/api/settings'', saveEndpoint = ''/TurnOn'',
          requestBody = Some (JObj [(''settingContextRecno'', JNum 1)]) \<rparr>),
      (''codeTable'', \<lparr> fetchEndpoint = ''/api/code-table'', saveEndpoint = ''/TurnOn'',
          requestBody = None \<rparr>),
      (''featureToggle'', \<lparr> fetchEndpoint = ''/GetAllFeatureFlags'',
          saveEndpoint = ''/TurnOnToggles'', requestBody = None \<rparr>)]"

definition initialState ::
  "ComparisonSession list \<Rightarrow> CustomComparisonType list \<Rightarrow> (string \<times> BuiltInEndpoint) list
     \<Rightarrow> ComparisonState" where
  "initialState loadedSessions loadedCustomTypes loadedBuiltInEndpoints =
     \<lparr> sessions = loadedSessions,
       activeSessionId = (case loadedSessions of [] \<Rightarrow> None
                          | s # _ \<Rightarrow> if ComparisonSession.id s \<noteq> []
                                     then Some (ComparisonSession.id s) else None),
       selectedInstances = [],
       baseInstanceId = None,
       currentFetchEndpoint = ''/api/settings'',
       currentSaveEndpoint = ''/api/settings'',
       comparisonType = ''settings'',
       customTypes = loadedCustomTypes,
       builtInEndpoints = loadedBuiltInEndpoints,
       loading = False,
       error = None \<rparr>"

text \<open>A fresh store, and two instances \<^verbatim>\<open>a\<close> and \<^verbatim>\<open>b\<close> with the payloads
  \<^verbatim>\<open>{x:1, y:2}\<close> and \<^verbatim>\<open>{x:1, y:3}\<close>.\<close>

definition freshState :: ComparisonState where
  "freshState = initialState [] [] defaultBuiltInEndpoints"

definition twoSettings :: "(string \<times> json) list" where
  "twoSettings =
     [(''a'', JObj [(''x'', JNum 1), (''y'', JNum 2)]),
      (''b'', JObj [(''x'', JNum 1), (''y'', JNum 3)])]"

definition settingsPayload :: "string list \<Rightarrow> Payload" where
  "settingsPayload ids =
     \<lparr> Payload.name = ''settings comparison'',
       Payload.instanceIds = ids,
       Payload.endpoint = ''/api/settings'',
       instanceData = twoSettings \<rparr>"

definition someClock :: Clock where
  "someClock = \<lparr> now = 1700000000000, isoString = ''2023-11-14T22:13:20.000Z'' \<rparr>"

text \<open>A custom type for arrays of records identified by \<^verbatim>\<open>id\<close> and compared on \<^verbatim>\<open>v\<close>.\<close>

definition exampleType :: CustomComparisonType where
  "exampleType = \<lparr> CustomComparisonType.id = ''custom-1'', label = ''Flag'',
                   comparisonFields = [''v''], identifierField = Some ''id'' \<rparr>"

text \<open>Payloads in which instance \<^verbatim>\<open>b\<close> lacks what instance \<^verbatim>\<open>a\<close> has: the setting
  \<^verbatim>\<open>x\<close>, the feature \<^verbatim>\<open>f1\<close>, the record \<^verbatim>\<open>f1\<close>.\<close>

definition partialSettings :: "(string \<times> json) list" where
  "partialSettings = [(''a'', JObj [(''x'', JNum 1)]), (''b'', JObj [])]"

definition partialToggles :: "(string \<times> FeatureToggle list) list" where
  "partialToggles = [(''a'', [\<lparr> FeatureName = ''f1'', CurrentValue = True \<rparr>]), (''b'', [])]"

definition partialRecords :: "(string \<times> (string \<times> json) list list) list" where
  "partialRecords = [(''a'', [[(''id'', JStr ''f1''), (''v'', JBool True)]]), (''b'', [])]"

text \<open>The feature toggles of two instances whose ids are the array indices \<^verbatim>\<open>1\<close> and \<^verbatim>\<open>2\<close>.\<close>

definition numberedToggles :: "(string \<times> FeatureToggle list) list" where
  "numberedToggles = [(''1'', [\<lparr> FeatureName = ''f1'', CurrentValue = True \<rparr>]), (''2'', [])]"


text \<open>An array with a record whose identifier is the empty string, and an array with the
  identifiers \<^verbatim>\<open>0\<close>, \<^verbatim>\<open>false\<close> and none.\<close>

definition blankRecords :: "(string \<times> (string \<times> json) list list) list" where
  "blankRecords =
     [(''a'', [[(''id'', JStr []), (''v'', JNum 1)], [(''id'', JStr ''f1''), (''v'', JNum 2)]])]"

definition oddRecords :: "(string \<times> (string \<times> json) list list) list" where
  "oddRecords =
     [(''a'', [[(''id'', JNum 0), (''v'', JNum 1)],
               [(''id'', JBool False), (''v'', JNum 2)],
               [(''v'', JNum 3)]])]"

text \<open>A custom type for an object compared on its field \<^verbatim>\<open>x\<close>.\<close>

definition fieldType :: CustomComparisonType where
  "fieldType = \<lparr> CustomComparisonType.id = ''custom-2'', label = ''Limits'',
                 comparisonFields = [''x''], identifierField = None \<rparr>"



section \<open>The units of the array modes\<close>

text \<open>What \<^verbatim>\<open>compareFeatureToggles\<close> and \<^verbatim>\<open>compareCustomArrayData\<close> collect for a unit: the
  second loop of each, over the maps the first loop built.\<close>

definition toggleCollected ::
  "(string \<times> FeatureToggle list) list \<Rightarrow> string list \<Rightarrow> string option \<Rightarrow> string \<Rightarrow> collected" where
  "toggleCollected tdata ids base f =
     toggleCollect (snd (buildFeatureMaps tdata ids)) ids base f"

definition arrayCollected ::
  "(string \<times> (string \<times> json) list list) list \<Rightarrow> string list \<Rightarrow> CustomComparisonType
     \<Rightarrow> string option \<Rightarrow> string \<Rightarrow> collected" where
  "arrayCollected adata ids ct base u =
     itemCollect (snd (buildItemMaps adata ids (the (identifierField ct))))
       (comparisonFields ct) ids base u"

text \<open>An instance's array as the first loops read it, \<^verbatim>\<open>instanceData[instanceId] || []\<close>,
  and the records of an array that the first loop of \<^verbatim>\<open>compareCustomArrayData\<close> keeps, each
  with its identifier.\<close>

definition featuresOf :: "(string \<times> FeatureToggle list) list \<Rightarrow> string \<Rightarrow> FeatureToggle list" where
  "featuresOf tdata i = (case map_of tdata i of None \<Rightarrow> [] | Some fs \<Rightarrow> fs)"

definition itemsOf ::
  "(string \<times> (string \<times> json) list list) list \<Rightarrow> string \<Rightarrow> (string \<times> json) list list" where
  "itemsOf adata i = (case map_of adata i of None \<Rightarrow> [] | Some xs \<Rightarrow> xs)"

definition identified ::
  "string \<Rightarrow> (string \<times> json) list list \<Rightarrow> (string \<times> (string \<times> json) list) list" where
  "identified idField items =
     filter (\<lambda>e. fst e \<noteq> []) (map (\<lambda>item. (String_of (obj_get item idField), item)) items)"

section \<open>The collecting loop, once\<close>

text \<open>The four loops that collect a unit's values differ only in how they read the unit
  from an instance. For the proofs the loop is written once, over a function \<open>present\<close>
  that gives an instance's value for the unit, or \<open>None\<close> where the source stores the
  sentinel; each loop of the source is then shown to be an instance of it.\<close>

definition collectStep ::
  "(string \<Rightarrow> json option) \<Rightarrow> string option \<Rightarrow> collected \<Rightarrow> string \<Rightarrow> collected" where
  "collectStep present base c i =
     (case c of (vs, affected, hasBaseValue, baseValue) \<Rightarrow>
        (case present i of
           Some v \<Rightarrow>
             (obj_set vs i v, affected @ [i],
              (if truthy_str base \<and> Some i = base then True else hasBaseValue),
              (if truthy_str base \<and> Some i = base then v else baseValue))
         | None \<Rightarrow> (obj_set vs i MISSING, affected, hasBaseValue, baseValue)))"

definition collectWith ::
  "(string \<Rightarrow> json option) \<Rightarrow> string option \<Rightarrow> string list \<Rightarrow> collected" where
  "collectWith present base ids = foldl (collectStep present base) ([], [], False, JUndef) ids"

text \<open>What the loop stores for an instance.\<close>

definition stored :: "(string \<Rightarrow> json option) \<Rightarrow> string \<Rightarrow> json" where
  "stored present i = (case present i of None \<Rightarrow> MISSING | Some v \<Rightarrow> v)"

text \<open>The unit's value as the three readers of the source find it.\<close>

definition pathValue :: "(string \<times> json) list \<Rightarrow> string \<Rightarrow> string \<Rightarrow> json option" where
  "pathValue data p i =
     (if truthy (obj_get data i) \<and> getValueAtPath (obj_get data i) p \<noteq> JUndef
      then Some (getValueAtPath (obj_get data i) p) else None)"

definition toggleValue ::
  "(string \<times> (string \<times> FeatureToggle) list) list \<Rightarrow> string \<Rightarrow> string \<Rightarrow> json option" where
  "toggleValue maps f i =
     (case map_get maps i of
        None \<Rightarrow> None
      | Some m \<Rightarrow> (case map_get m f of None \<Rightarrow> None | Some t \<Rightarrow> Some (JBool (CurrentValue t))))"

definition itemValue ::
  "(string \<times> (string \<times> (string \<times> json) list) list) list \<Rightarrow> string list \<Rightarrow> string \<Rightarrow> string
     \<Rightarrow> json option" where
  "itemValue maps flds u i =
     (case map_get maps i of
        None \<Rightarrow> None
      | Some m \<Rightarrow> (case map_get m u of None \<Rightarrow> None | Some it \<Rightarrow> Some (itemValues flds it)))"

section \<open>Evaluation on concrete inputs\<close>

lemmas js_defs =
  obj_get_def obj_set_def arr_get_def array_index_def parse_nat_def digit_val_def
  set_add_def map_set_def map_get_def new_Map_def
  quoted_def quote_def escape_char_def show_int_def show_nat.simps
  getValueAtPath_def read_key_def collectPaths_def Let_def

lemmas generic_defs =
  compareGenericData_def genericUnit_def pathCollect_def hasDifference_def classify_def

section \<open>Objects written key by key\<close>

lemma map_of_insert_index:
  "k \<notin> fst ` set kvs \<Longrightarrow> map_of (insert_index n k v kvs) = (map_of kvs)(k \<mapsto> v)"
  by (induction kvs) (auto split: option.splits simp: fun_upd_twist)

lemma map_add_single: "m k = None \<Longrightarrow> [k \<mapsto> v] ++ m = m(k \<mapsto> v)"
  by (rule ext) (auto simp: map_add_def split: option.splits)

lemma map_of_obj_set: "map_of (obj_set kvs k v) = (map_of kvs)(k \<mapsto> v)"
  by (simp add: obj_set_def update_conv' map_of_insert_index map_add_single map_of_eq_None_iff split: option.splits)

lemma set_insert_index: "set (insert_index n k v kvs) = insert (k, v) (set kvs)"
  by (induction kvs) (auto split: option.splits)

lemma keys_obj_set: "fst ` set (obj_set kvs k v) = insert k (fst ` set kvs)"
proof -
  have "fst ` set (obj_set kvs k v) = dom (map_of (obj_set kvs k v))"
    by (simp add: dom_map_of_conv_image_fst)
  also have "\<dots> = insert k (dom (map_of kvs))"
    by (simp add: map_of_obj_set)
  finally show ?thesis
    by (simp add: dom_map_of_conv_image_fst)
qed

lemma distinct_insert_index:
  "k \<notin> fst ` set kvs \<Longrightarrow> distinct (map fst kvs) \<Longrightarrow> distinct (map fst (insert_index n k v kvs))"
  by (induction kvs) (auto split: option.splits simp: set_insert_index)

lemma distinct_obj_set:
  "distinct (map fst kvs) \<Longrightarrow> distinct (map fst (obj_set kvs k v))"
  by (auto simp: obj_set_def distinct_update distinct_insert_index split: option.splits)

lemma obj_set_append:
  "array_index k = None \<Longrightarrow> k \<notin> fst ` set kvs \<Longrightarrow> obj_set kvs k v = kvs @ [(k, v)]"
  by (simp add: obj_set_def)

lemma obj_get_obj_set: "obj_get (obj_set kvs k v) k' = (if k' = k then v else obj_get kvs k')"
  by (simp add: obj_get_def map_of_obj_set)

section \<open>What the collecting loop leaves\<close>

lemma collectWith_Nil: "collectWith pr base [] = ([], [], False, JUndef)"
  by (simp add: collectWith_def)

lemma collectWith_snoc:
  "collectWith pr base (ids @ [i]) = collectStep pr base (collectWith pr base ids) i"
  by (simp add: collectWith_def)

lemma cw_values:
  "map_of (fst (collectWith pr base ids)) =
     (\<lambda>i. if i \<in> set ids then Some (stored pr i) else None)"
proof (induction ids rule: rev_induct)
  case Nil
  show ?case by (simp add: collectWith_Nil)
next
  case (snoc i ids)
  obtain vs af hb bv where c: "collectWith pr base ids = (vs, af, hb, bv)"
    by (cases "collectWith pr base ids") auto
  with snoc have vs: "map_of vs = (\<lambda>j. if j \<in> set ids then Some (stored pr j) else None)"
    by simp
  show ?case
    by (rule ext)
       (auto simp: collectWith_snoc c collectStep_def map_of_obj_set vs stored_def
             split: option.splits)
qed

lemma cw_distinct: "distinct (map fst (fst (collectWith pr base ids)))"
proof (induction ids rule: rev_induct)
  case Nil
  show ?case by (simp add: collectWith_Nil)
next
  case (snoc i ids)
  then show ?case
    by (cases "collectWith pr base ids")
       (auto simp: collectWith_snoc collectStep_def distinct_obj_set split: option.splits)
qed

lemma cw_keys_set: "fst ` set (fst (collectWith pr base ids)) = set ids"
proof -
  have "fst ` set (fst (collectWith pr base ids)) = dom (map_of (fst (collectWith pr base ids)))"
    by (simp add: dom_map_of_conv_image_fst)
  also have "\<dots> = set ids"
    by (auto simp: cw_values dom_def)
  finally show ?thesis .
qed

lemma cw_affected:
  "fst (snd (collectWith pr base ids)) = filter (\<lambda>i. pr i \<noteq> None) ids"
proof (induction ids rule: rev_induct)
  case Nil
  show ?case by (simp add: collectWith_Nil)
next
  case (snoc i ids)
  then show ?case
    by (cases "collectWith pr base ids")
       (auto simp: collectWith_snoc collectStep_def split: option.splits)
qed

lemma cw_hasBase:
  "fst (snd (snd (collectWith pr base ids))) =
     (truthy_str base \<and> (\<exists>b\<in>set ids. Some b = base \<and> pr b \<noteq> None))"
proof (induction ids rule: rev_induct)
  case Nil
  show ?case by (simp add: collectWith_Nil)
next
  case (snoc i ids)
  then show ?case
    by (cases "collectWith pr base ids")
       (auto simp: collectWith_snoc collectStep_def split: option.splits)
qed

lemma cw_baseValue:
  "fst (snd (snd (collectWith pr base ids))) \<Longrightarrow>
     pr (the base) = Some (snd (snd (snd (collectWith pr base ids))))"
proof (induction ids rule: rev_induct)
  case Nil
  then show ?case by (simp add: collectWith_Nil)
next
  case (snoc i ids)
  then show ?case
    by (cases "collectWith pr base ids")
       (auto simp: collectWith_snoc collectStep_def split: option.splits if_splits)
qed

lemma cw_keys:
  "distinct ids \<Longrightarrow> \<forall>i\<in>set ids. array_index i = None \<Longrightarrow>
     map fst (fst (collectWith pr base ids)) = ids"
proof (induction ids rule: rev_induct)
  case Nil
  show ?case by (simp add: collectWith_Nil)
next
  case (snoc i ids)
  obtain vs af hb bv where c: "collectWith pr base ids = (vs, af, hb, bv)"
    by (cases "collectWith pr base ids") auto
  from snoc have keys: "map fst vs = ids" and i: "i \<notin> set ids" "array_index i = None"
    by (auto simp: c)
  from keys i have "i \<notin> fst ` set vs"
    by (metis list.set_map)
  with i keys show ?case
    by (auto simp: collectWith_snoc c collectStep_def obj_set_append split: option.splits)
qed

lemma cw_obj_get:
  "i \<in> set ids \<Longrightarrow> obj_get (fst (collectWith pr base ids)) i = stored pr i"
  by (simp add: obj_get_def cw_values)

lemma cw_obj_get_absent:
  "i \<notin> set ids \<Longrightarrow> obj_get (fst (collectWith pr base ids)) i = JUndef"
  by (simp add: obj_get_def cw_values)

lemma cw_value_set:
  "snd ` set (fst (collectWith pr base ids)) = stored pr ` set ids"
proof -
  have "snd ` set (fst (collectWith pr base ids)) = ran (map_of (fst (collectWith pr base ids)))"
    by (simp add: ran_distinct cw_distinct)
  also have "\<dots> = stored pr ` set ids"
    by (auto simp: cw_values ran_def)
  finally show ?thesis .
qed

lemma pathCollect_eq:
  "pathCollect data ids base p = collectWith (pathValue data p) base ids"
  unfolding pathCollect_def collectWith_def
  by (rule foldl_cong) (auto simp: collectStep_def pathValue_def Let_def)

lemma toggleCollect_eq:
  "toggleCollect maps ids base f = collectWith (toggleValue maps f) base ids"
  unfolding toggleCollect_def collectWith_def
  by (rule foldl_cong) (auto simp: collectStep_def toggleValue_def Let_def split: option.splits)

lemma itemCollect_eq:
  "itemCollect maps flds ids base u = collectWith (itemValue maps flds u) base ids"
  unfolding itemCollect_def collectWith_def
  by (rule foldl_cong) (auto simp: collectStep_def itemValue_def Let_def split: option.splits)

section \<open>The difference test and the classification\<close>

lemma foldl_flag:
  "(\<And>h i. f h i = (h \<or> P i)) \<Longrightarrow> foldl f b xs = (b \<or> (\<exists>i\<in>set xs. P i))"
  by (induction xs arbitrary: b) auto

lemma remdups_two:
  "(1 < length (remdups xs)) = (\<exists>x\<in>set xs. \<exists>y\<in>set xs. x \<noteq> y)"
proof
  assume "1 < length (remdups xs)"
  then obtain a b r where r: "remdups xs = a # b # r"
    by (cases "remdups xs" rule: list.exhaust[case_product list.exhaust]) (auto simp: neq_Nil_conv)
  have "distinct (remdups xs)" by simp
  with r have "a \<noteq> b" by (metis distinct_length_2_or_more)
  moreover have "a \<in> set xs" "b \<in> set xs"
    using r by (metis list.set_intros(1) set_remdups list.set_intros(2))+
  ultimately show "\<exists>x\<in>set xs. \<exists>y\<in>set xs. x \<noteq> y" by blast
next
  assume "\<exists>x\<in>set xs. \<exists>y\<in>set xs. x \<noteq> y"
  then obtain x y where xy: "x \<in> set xs" "y \<in> set xs" "x \<noteq> y" by blast
  then have "{x, y} \<subseteq> set xs" by simp
  then have "card {x, y} \<le> card (set xs)" by (intro card_mono) auto
  with xy show "1 < length (remdups xs)"
    by (simp add: length_remdups_card_conv)
qed

lemma hasDifference_base:
  "truthy_str base \<Longrightarrow>
   hasDifference (vs, af, True, bv) ids base =
     (\<exists>i\<in>set ids. Some i \<noteq> base \<and>
        (stringify (obj_get vs i) \<noteq> stringify bv \<or> obj_get vs i = MISSING))"
  unfolding hasDifference_def
  by (simp, subst foldl_flag[where P = "\<lambda>i. Some i \<noteq> base \<and>
        (stringify (obj_get vs i) \<noteq> stringify bv \<or> obj_get vs i = MISSING)"])
     (auto simp: Let_def)

lemma remdups_two':
  "(Suc 0 < length (remdups xs)) = (\<exists>x\<in>set xs. \<exists>y\<in>set xs. x \<noteq> y)"
  using remdups_two[of xs] by simp

lemma hasDifference_sym:
  "\<not> (truthy_str base \<and> hb) \<Longrightarrow>
   hasDifference (vs, af, hb, bv) ids base =
     (\<exists>x\<in>snd ` set vs. \<exists>y\<in>snd ` set vs. stringify x \<noteq> stringify y)"
  by (auto simp: hasDifference_def remdups_two')

lemma toggleHasDifference_base:
  "truthy_str base \<Longrightarrow>
   toggleHasDifference (vs, af, True, bv) ids base =
     (\<exists>i\<in>set ids. Some i \<noteq> base \<and> (obj_get vs i \<noteq> bv \<or> obj_get vs i = MISSING))"
  unfolding toggleHasDifference_def
  by (simp, subst foldl_flag[where P = "\<lambda>i. Some i \<noteq> base \<and>
        (obj_get vs i \<noteq> bv \<or> obj_get vs i = MISSING)"])
     (auto simp: Let_def)


lemma classify_type:
  "fst (classify subject differs c ids base) \<noteq> Unchanged"
  by (cases c) (auto simp: classify_def Let_def)

lemma toggleClassify_type:
  "fst (toggleClassify c ids base f) \<noteq> Unchanged"
  by (cases c) (auto simp: toggleClassify_def Let_def)

lemma in_map_filter: "r \<in> set (List.map_filter f xs) = (\<exists>x\<in>set xs. f x = Some r)"
  by (induction xs) (auto simp: List.map_filter_simps split: option.splits)

section \<open>Summary counts\<close>

lemma genericUnit_type: "genericUnit data ids base p = Some r \<Longrightarrow> type r \<noteq> Unchanged"
  by (auto simp: genericUnit_def Let_def classify_type split: if_splits)

lemma objectUnit_type: "objectUnit data ids ct base p = Some r \<Longrightarrow> type r \<noteq> Unchanged"
  by (auto simp: objectUnit_def Let_def classify_type split: if_splits)

lemma arrayUnit_type: "arrayUnit maps ids ct base u = Some r \<Longrightarrow> type r \<noteq> Unchanged"
  by (auto simp: arrayUnit_def Let_def classify_type split: if_splits)

lemma toggleUnit_type: "toggleUnit maps ids base f = Some r \<Longrightarrow> type r \<noteq> Unchanged"
  by (auto simp: toggleUnit_def Let_def toggleClassify_type split: if_splits)

lemma runComparison_types:
  "runComparison st pl = Inr rs \<Longrightarrow> r \<in> set rs \<Longrightarrow> type r \<noteq> Unchanged"
  by (auto simp: runComparison_def Let_def compareGenericData_def compareCustomObjectData_def
        compareCustomArrayData_def compareFeatureToggles_def in_map_filter
        genericUnit_type objectUnit_type arrayUnit_type toggleUnit_type
      split: if_splits option.splits prod.splits sum.splits)

lemma count_by_type:
  "\<forall>r\<in>set rs. type r \<noteq> Unchanged \<Longrightarrow>
   length rs = length (filter (\<lambda>r. type r = Added) rs)
             + length (filter (\<lambda>r. type r = Deleted) rs)
             + length (filter (\<lambda>r. type r = Edited) rs)"
proof (induction rs)
  case Nil
  show ?case by simp
next
  case (Cons r rs)
  then show ?case by (cases "type r") auto
qed

lemma createComparisonSession_Inr:
  "createComparisonSession st pl clk = Inr (st', effs) \<Longrightarrow> 2 \<le> length (Payload.instanceIds pl) \<Longrightarrow>
   \<exists>rs. runComparison st pl = Inr rs \<and>
     st' = st\<lparr> sessions := sessions st @
                 [\<lparr> ComparisonSession.id = show_nat (now clk),
                    ComparisonSession.name = Payload.name pl,
                    ComparisonSession.instanceIds = Payload.instanceIds pl,
                    ComparisonSession.endpoint = Payload.endpoint pl,
                    timestamp = isoString clk, results = rs, summary = summarize rs \<rparr>],
              activeSessionId := Some (show_nat (now clk)) \<rparr> \<and>
     effs = [SaveSessions (sessions st')]"
  by (auto simp: createComparisonSession_def Let_def split: sum.splits)

text \<open>
  C1. For every run of \<^verbatim>\<open>createComparisonSession\<close> over at least two instance ids, in any
  mode and with or without a base instance, the summary of the new session counts its
  results: the total is the number of results, each of \<open>added\<close>, \<open>deleted\<close>, \<open>edited\<close> is
  the number of results of that type, the total is their sum, and no result has the type
  \<open>unchanged\<close>.
\<close>

theorem summary_invariant:
  assumes "createComparisonSession st pl clk = Inr (st', effs)"
    and "2 \<le> length (Payload.instanceIds pl)"
  shows "\<exists>s. sessions st' = sessions st @ [s]
           \<and> totalDifferences (summary s) = length (results s)
           \<and> added (summary s) = length (filter (\<lambda>r. type r = Added) (results s))
           \<and> deleted (summary s) = length (filter (\<lambda>r. type r = Deleted) (results s))
           \<and> edited (summary s) = length (filter (\<lambda>r. type r = Edited) (results s))
           \<and> totalDifferences (summary s)
               = added (summary s) + deleted (summary s) + edited (summary s)
           \<and> (\<forall>r\<in>set (results s). type r \<noteq> Unchanged)"
proof -
  from createComparisonSession_Inr[OF assms] obtain rs where
    rs: "runComparison st pl = Inr rs" and
    st': "st' = st\<lparr> sessions := sessions st @
                 [\<lparr> ComparisonSession.id = show_nat (now clk),
                    ComparisonSession.name = Payload.name pl,
                    ComparisonSession.instanceIds = Payload.instanceIds pl,
                    ComparisonSession.endpoint = Payload.endpoint pl,
                    timestamp = isoString clk, results = rs, summary = summarize rs \<rparr>],
              activeSessionId := Some (show_nat (now clk)) \<rparr>"
    by blast
  have types: "\<forall>r\<in>set rs. type r \<noteq> Unchanged"
    using runComparison_types[OF rs] by blast
  show ?thesis
    unfolding st' using types count_by_type[OF types]
    by (simp add: summarize_def)
qed

lemmas session_defs =
  createComparisonSession_def runComparison_def copyData_def castData_def summarize_def
  freshState_def initialState_def settingsPayload_def twoSettings_def someClock_def

lemma example_run:
  "createComparisonSession freshState (settingsPayload [''a'', ''b'']) someClock =
     Inr (freshState\<lparr> sessions :=
            [\<lparr> ComparisonSession.id = ''1700000000000'',
               ComparisonSession.name = ''settings comparison'',
               ComparisonSession.instanceIds = [''a'', ''b''],
               ComparisonSession.endpoint = ''/api/settings'',
               timestamp = ''2023-11-14T22:13:20.000Z'',
               results =
                 [\<lparr> path = ''y'', type = Edited,
                     values' = [(''a'', JNum 2), (''b'', JNum 3)],
                     affectedInstances = [''a'', ''b''],
                     description = ''Setting at '' @ quoted ''y''
                        @ '' has inconsistent values across instances'' \<rparr>],
               summary = \<lparr> totalDifferences = 1, added = 0, deleted = 0, edited = 1 \<rparr> \<rparr>],
          activeSessionId := Some ''1700000000000'' \<rparr>,
        [SaveSessions
            [\<lparr> ComparisonSession.id = ''1700000000000'',
               ComparisonSession.name = ''settings comparison'',
               ComparisonSession.instanceIds = [''a'', ''b''],
               ComparisonSession.endpoint = ''/api/settings'',
               timestamp = ''2023-11-14T22:13:20.000Z'',
               results =
                 [\<lparr> path = ''y'', type = Edited,
                     values' = [(''a'', JNum 2), (''b'', JNum 3)],
                     affectedInstances = [''a'', ''b''],
                     description = ''Setting at '' @ quoted ''y''
                        @ '' has inconsistent values across instances'' \<rparr>],
               summary = \<lparr> totalDifferences = 1, added = 0, deleted = 0, edited = 1 \<rparr> \<rparr>]])"
  by (simp add: session_defs generic_defs js_defs)

theorem summary_invariant_witness:
  "2 \<le> length (Payload.instanceIds (settingsPayload [''a'', ''b'']))
   \<and> (\<exists>st' effs. createComparisonSession freshState (settingsPayload [''a'', ''b'']) someClock
                     = Inr (st', effs)
        \<and> (\<exists>s. sessions st' = sessions freshState @ [s]
              \<and> totalDifferences (summary s) = length (results s)
              \<and> added (summary s) = length (filter (\<lambda>r. type r = Added) (results s))
              \<and> deleted (summary s) = length (filter (\<lambda>r. type r = Deleted) (results s))
              \<and> edited (summary s) = length (filter (\<lambda>r. type r = Edited) (results s))
              \<and> totalDifferences (summary s)
                  = added (summary s) + deleted (summary s) + edited (summary s)
              \<and> (\<forall>r\<in>set (results s). type r \<noteq> Unchanged)))"
proof -
  have len: "2 \<le> length (Payload.instanceIds (settingsPayload [''a'', ''b'']))"
    by (simp add: settingsPayload_def)
  from summary_invariant[OF example_run len] len example_run show ?thesis
    by blast
qed









section \<open>Units and their results\<close>

text \<open>With a base value present.\<close>

lemma cw_base_in_ids:
  "fst (snd (snd (collectWith pr base ids))) \<Longrightarrow>
     truthy_str base \<and> the base \<in> set ids \<and> base = Some (the base) \<and> pr (the base) \<noteq> None"
  by (auto simp: cw_hasBase)

lemma cw_hasDifference_base:
  assumes "fst (snd (snd (collectWith pr base ids)))"
  shows "hasDifference (collectWith pr base ids) ids base =
           (\<exists>i\<in>set ids. Some i \<noteq> base \<and>
              (stringify (stored pr i) \<noteq> stringify (stored pr (the base)) \<or> stored pr i = MISSING))"
proof -
  obtain vs af hb bv where c: "collectWith pr base ids = (vs, af, hb, bv)"
    by (cases "collectWith pr base ids") auto
  from assms c have hb: "hb" by simp
  from cw_base_in_ids[OF assms] have b: "truthy_str base" "pr (the base) \<noteq> None" by auto
  from cw_baseValue[OF assms] c have bv: "pr (the base) = Some bv" by simp
  then have sb: "stored pr (the base) = bv" by (simp add: stored_def)
  have vs: "\<And>i. i \<in> set ids \<Longrightarrow> obj_get vs i = stored pr i"
    using cw_obj_get[of _ ids pr base] c by simp
  show ?thesis
    unfolding c using hb hasDifference_base[OF b(1), of vs af bv ids] vs sb
    by auto
qed

lemma cw_hasDifference_sym:
  assumes "\<not> fst (snd (snd (collectWith pr base ids)))"
  shows "hasDifference (collectWith pr base ids) ids base =
           (\<exists>i\<in>set ids. \<exists>j\<in>set ids. stringify (stored pr i) \<noteq> stringify (stored pr j))"
proof -
  obtain vs af hb bv where c: "collectWith pr base ids = (vs, af, hb, bv)"
    by (cases "collectWith pr base ids") auto
  from assms c have hb: "\<not> hb" by simp
  have vs: "snd ` set vs = stored pr ` set ids"
    using cw_value_set[of pr base ids] c by simp
  show ?thesis
    unfolding c using hasDifference_sym[of base hb vs af bv ids] hb vs
    by auto
qed

lemma cw_toggleHasDifference_base:
  assumes "fst (snd (snd (collectWith pr base ids)))"
  shows "toggleHasDifference (collectWith pr base ids) ids base =
           (\<exists>i\<in>set ids. Some i \<noteq> base \<and>
              (stored pr i \<noteq> stored pr (the base) \<or> stored pr i = MISSING))"
proof -
  obtain vs af hb bv where c: "collectWith pr base ids = (vs, af, hb, bv)"
    by (cases "collectWith pr base ids") auto
  from assms c have hb: "hb" by simp
  from cw_base_in_ids[OF assms] have b: "truthy_str base" "pr (the base) \<noteq> None" by auto
  from cw_baseValue[OF assms] c have bv: "pr (the base) = Some bv" by simp
  then have sb: "stored pr (the base) = bv" by (simp add: stored_def)
  have vs: "\<And>i. i \<in> set ids \<Longrightarrow> obj_get vs i = stored pr i"
    using cw_obj_get[of _ ids pr base] c by simp
  show ?thesis
    unfolding c using hb toggleHasDifference_base[OF b(1), of vs af bv ids] vs sb
    by auto
qed


text \<open>The lists of missing and present instances, read off the collected values.\<close>

lemma cw_filter_values:
  "filter (\<lambda>i. P (obj_get (fst (collectWith pr base ids)) i)) ids
     = filter (\<lambda>i. P (stored pr i)) ids"
  by (rule filter_cong) (auto simp: cw_obj_get)

text \<open>The type the classification gives, in its three cases.\<close>

lemma classify_partial_base:
  assumes "filter (\<lambda>i. obj_get vs i = MISSING) ids \<noteq> []"
    and "filter (\<lambda>i. obj_get vs i \<noteq> MISSING) ids \<noteq> []"
    and "truthy_str base"
  shows "fst (classify subject differs (vs, af, hb, bv) ids base) =
           (if obj_get vs (the base) = MISSING then Added else Deleted)"
  using assms by (simp add: classify_def Let_def)

lemma classify_partial_nobase:
  assumes "filter (\<lambda>i. obj_get vs i = MISSING) ids \<noteq> []"
    and "filter (\<lambda>i. obj_get vs i \<noteq> MISSING) ids \<noteq> []"
    and "\<not> truthy_str base"
  shows "fst (classify subject differs (vs, af, hb, bv) ids base) =
           (if length (filter (\<lambda>i. obj_get vs i = MISSING) ids)
                < length (filter (\<lambda>i. obj_get vs i \<noteq> MISSING) ids)
            then Added else Deleted)"
  using assms by (simp add: classify_def Let_def)

lemma toggleClassify_partial_base:
  assumes "filter (\<lambda>i. obj_get vs i = MISSING) ids \<noteq> []"
    and "filter (\<lambda>i. obj_get vs i \<noteq> MISSING) ids \<noteq> []"
    and "truthy_str base"
  shows "fst (toggleClassify (vs, af, hb, bv) ids base f) =
           (if obj_get vs (the base) = MISSING then Added else Deleted)"
  using assms by (simp add: toggleClassify_def Let_def)

lemma toggleClassify_partial_nobase:
  assumes "filter (\<lambda>i. obj_get vs i = MISSING) ids \<noteq> []"
    and "filter (\<lambda>i. obj_get vs i \<noteq> MISSING) ids \<noteq> []"
    and "\<not> truthy_str base"
  shows "fst (toggleClassify (vs, af, hb, bv) ids base f) =
           (if length (filter (\<lambda>i. obj_get vs i = MISSING) ids)
                < length (filter (\<lambda>i. obj_get vs i \<noteq> MISSING) ids)
            then Added else Deleted)"
  using assms by (simp add: toggleClassify_def Let_def)

text \<open>What a unit's result holds, for each of the four functions.\<close>

lemma genericUnit_Some:
  "genericUnit data ids base p = Some r \<Longrightarrow>
     hasDifference (pathCollect data ids base p) ids base
     \<and> path r = p \<and> values' r = fst (pathCollect data ids base p)
     \<and> affectedInstances r = fst (snd (pathCollect data ids base p))
     \<and> type r = fst (classify (''Setting at '' @ quoted p) '' differs from base value in ''
                       (pathCollect data ids base p) ids base)"
  by (auto simp: genericUnit_def Let_def split: if_splits)

lemma objectUnit_Some:
  "objectUnit data ids ct base p = Some r \<Longrightarrow>
     hasDifference (pathCollect data ids base p) ids base
     \<and> path r = p \<and> values' r = fst (pathCollect data ids base p)
     \<and> affectedInstances r = fst (snd (pathCollect data ids base p))
     \<and> type r = fst (classify (label ct @ '' field '' @ quoted p) '' differs from base value in ''
                       (pathCollect data ids base p) ids base)"
  by (auto simp: objectUnit_def Let_def split: if_splits)

lemma arrayUnit_Some:
  "arrayUnit maps ids ct base u = Some r \<Longrightarrow>
     hasDifference (itemCollect maps (comparisonFields ct) ids base u) ids base
     \<and> path r = u \<and> values' r = fst (itemCollect maps (comparisonFields ct) ids base u)
     \<and> affectedInstances r = fst (snd (itemCollect maps (comparisonFields ct) ids base u))
     \<and> type r = fst (classify (label ct @ '' item '' @ quoted u) '' differs from base in ''
                       (itemCollect maps (comparisonFields ct) ids base u) ids base)"
  by (auto simp: arrayUnit_def Let_def split: if_splits)

lemma toggleUnit_Some:
  "toggleUnit maps ids base f = Some r \<Longrightarrow>
     (toggleHasDifference (toggleCollect maps ids base f) ids base
        \<or> length (fst (snd (toggleCollect maps ids base f))) \<noteq> length ids)
     \<and> path r = f \<and> values' r = fst (toggleCollect maps ids base f)
     \<and> affectedInstances r = fst (snd (toggleCollect maps ids base f))
     \<and> type r = fst (toggleClassify (toggleCollect maps ids base f) ids base f)"
  by (auto simp: toggleUnit_def Let_def split: if_splits)

lemma genericUnit_emits:
  "(genericUnit data ids base p \<noteq> None) = hasDifference (pathCollect data ids base p) ids base"
  by (simp add: genericUnit_def Let_def)

lemma objectUnit_emits:
  "(objectUnit data ids ct base p \<noteq> None) = hasDifference (pathCollect data ids base p) ids base"
  by (simp add: objectUnit_def Let_def)

lemma arrayUnit_emits:
  "(arrayUnit maps ids ct base u \<noteq> None)
     = hasDifference (itemCollect maps (comparisonFields ct) ids base u) ids base"
  by (simp add: arrayUnit_def Let_def)

lemma toggleUnit_emits:
  "(toggleUnit maps ids base f \<noteq> None)
     = (toggleHasDifference (toggleCollect maps ids base f) ids base
        \<or> length (fst (snd (toggleCollect maps ids base f))) \<noteq> length ids)"
  by (simp add: toggleUnit_def Let_def)

text \<open>A unit of the list has a result with its path exactly when the unit's body gives one.\<close>

lemma unit_result_iff:
  assumes "\<And>x r. f x = Some r \<Longrightarrow> path r = x"
  shows "(\<exists>r\<in>set (List.map_filter f xs). path r = u) = (u \<in> set xs \<and> f u \<noteq> None)"
proof
  assume "\<exists>r\<in>set (List.map_filter f xs). path r = u"
  then obtain r x where "x \<in> set xs" "f x = Some r" "path r = u"
    by (auto simp: in_map_filter)
  with assms[of x r] show "u \<in> set xs \<and> f u \<noteq> None" by auto
next
  assume "u \<in> set xs \<and> f u \<noteq> None"
  then obtain r where r: "u \<in> set xs" "f u = Some r" by auto
  with assms[of u r] have "r \<in> set (List.map_filter f xs)" "path r = u"
    by (auto simp: in_map_filter)
  then show "\<exists>r\<in>set (List.map_filter f xs). path r = u" by blast
qed


lemma object_result_iff:
  "(\<exists>r\<in>set (compareCustomObjectData data ids ct base). path r = p)
     = (p \<in> set (comparisonFields ct)
        \<and> hasDifference (pathCollect data ids base p) ids base)"
  unfolding compareCustomObjectData_def
  using objectUnit_emits[of data ids ct base p]
  by (subst unit_result_iff) (auto simp: objectUnit_Some)

section \<open>Classification without a base\<close>

lemma classify_nobase:
  assumes "\<not> truthy_str base"
    and "filter (\<lambda>i. obj_get (fst c) i = MISSING) ids \<noteq> []"
    and "filter (\<lambda>i. obj_get (fst c) i \<noteq> MISSING) ids \<noteq> []"
  shows "fst (classify subject differs c ids base) =
           (if length (filter (\<lambda>i. obj_get (fst c) i = MISSING) ids)
                < length (filter (\<lambda>i. obj_get (fst c) i \<noteq> MISSING) ids)
            then Added else Deleted)"
  using assms by (cases c) (simp add: classify_partial_nobase)

lemma toggleClassify_nobase:
  assumes "\<not> truthy_str base"
    and "filter (\<lambda>i. obj_get (fst c) i = MISSING) ids \<noteq> []"
    and "filter (\<lambda>i. obj_get (fst c) i \<noteq> MISSING) ids \<noteq> []"
  shows "fst (toggleClassify c ids base f) =
           (if length (filter (\<lambda>i. obj_get (fst c) i = MISSING) ids)
                < length (filter (\<lambda>i. obj_get (fst c) i \<noteq> MISSING) ids)
            then Added else Deleted)"
  using assms by (cases c) (simp add: toggleClassify_partial_nobase)

lemma result_cases:
  assumes "r \<in> set (compareGenericData data ids base)
             \<union> set (compareCustomObjectData data ids ct base)
             \<union> set (compareCustomArrayData adata ids ct' base)
             \<union> set (compareFeatureToggles tdata ids base)"
  obtains (generic) p where "genericUnit data ids base p = Some r"
  | (object) p where "objectUnit data ids ct base p = Some r"
  | (array) maps u where "arrayUnit maps ids ct' base u = Some r"
  | (toggle) maps f where "toggleUnit maps ids base f = Some r"
  using assms
  by (auto simp: compareGenericData_def compareCustomObjectData_def compareCustomArrayData_def
        compareFeatureToggles_def Let_def in_map_filter split: if_splits prod.splits)

text \<open>
  C5. Without a base instance, a reported unit that some instances hold and others lack is
  \<open>added\<close> exactly when fewer instances lack it than hold it, and \<open>deleted\<close> otherwise; with
  as many missing as present it is \<open>deleted\<close>. The lists of missing and present instances
  are the ones the source computes: the ids whose entry is, or is not, the sentinel. This
  holds for the results of all four comparison functions.
\<close>

theorem no_base_tie_break:
  assumes "\<not> truthy_str base"
    and "r \<in> set (compareGenericData data ids base)
             \<union> set (compareCustomObjectData data ids ct base)
             \<union> set (compareCustomArrayData adata ids ct' base)
             \<union> set (compareFeatureToggles tdata ids base)"
    and "filter (\<lambda>i. obj_get (values' r) i = MISSING) ids \<noteq> []"
    and "filter (\<lambda>i. obj_get (values' r) i \<noteq> MISSING) ids \<noteq> []"
  shows "type r =
           (if length (filter (\<lambda>i. obj_get (values' r) i = MISSING) ids)
                < length (filter (\<lambda>i. obj_get (values' r) i \<noteq> MISSING) ids)
            then Added else Deleted)"
  using assms(2)
proof (cases rule: result_cases)
  case (generic p)
  from genericUnit_Some[OF this] assms(1,3,4) show ?thesis
    by (simp add: classify_nobase)
next
  case (object p)
  from objectUnit_Some[OF this] assms(1,3,4) show ?thesis
    by (simp add: classify_nobase)
next
  case (array maps u)
  from arrayUnit_Some[OF this] assms(1,3,4) show ?thesis
    by (simp add: classify_nobase)
next
  case (toggle maps f)
  from toggleUnit_Some[OF this] assms(1,3,4) show ?thesis
    by (simp add: toggleClassify_nobase)
qed

lemma tie_run:
  "compareGenericData [(''a'', JObj [(''x'', JNum 1)]), (''b'', JObj [])] [''a'', ''b''] None =
     [\<lparr> path = ''x'', type = Deleted,
         values' = [(''a'', JNum 1), (''b'', MISSING)],
         affectedInstances = [''a''],
         description = ''Setting at '' @ quoted ''x''
            @ '' deleted in 1 instance(s), present in 1'' \<rparr>]"
  by (simp add: generic_defs js_defs)

lemma majority_run:
  "compareGenericData
     [(''a'', JObj [(''x'', JNum 1)]), (''b'', JObj []), (''c'', JObj [(''x'', JNum 1)])]
     [''a'', ''b'', ''c''] None =
     [\<lparr> path = ''x'', type = Added,
         values' = [(''a'', JNum 1), (''b'', MISSING), (''c'', JNum 1)],
         affectedInstances = [''a'', ''c''],
         description = ''Setting at '' @ quoted ''x''
            @ '' added in 2 instance(s), missing in 1'' \<rparr>]"
  by (simp add: generic_defs js_defs)

theorem no_base_tie_break_witness:
  "\<not> truthy_str None
   \<and> \<lparr> path = ''x'', type = Deleted, values' = [(''a'', JNum 1), (''b'', MISSING)],
        affectedInstances = [''a''],
        description = ''Setting at '' @ quoted ''x'' @ '' deleted in 1 instance(s), present in 1'' \<rparr>
       \<in> set (compareGenericData [(''a'', JObj [(''x'', JNum 1)]), (''b'', JObj [])]
                 [''a'', ''b''] None)
   \<and> filter (\<lambda>i. obj_get [(''a'', JNum 1), (''b'', MISSING)] i = MISSING) [''a'', ''b''] = [''b'']
   \<and> filter (\<lambda>i. obj_get [(''a'', JNum 1), (''b'', MISSING)] i \<noteq> MISSING) [''a'', ''b''] = [''a'']
   \<and> type \<lparr> path = ''x'', type = Deleted, values' = [(''a'', JNum 1), (''b'', MISSING)],
        affectedInstances = [''a''],
        description = ''Setting at '' @ quoted ''x'' @ '' deleted in 1 instance(s), present in 1'' \<rparr>
       = (if length [''b''] < length [''a''] then Added else Deleted)"
proof -
  let ?r = "\<lparr> path = ''x'', type = Deleted, values' = [(''a'', JNum 1), (''b'', MISSING)],
        affectedInstances = [''a''],
        description = ''Setting at '' @ quoted ''x'' @ '' deleted in 1 instance(s), present in 1'' \<rparr>"
  let ?data = "[(''a'', JObj [(''x'', JNum 1)]), (''b'', JObj [])]"
  have nb: "\<not> truthy_str None" by simp
  have m: "?r \<in> set (compareGenericData ?data [''a'', ''b''] None)"
    by (simp add: tie_run)
  then have m': "?r \<in> set (compareGenericData ?data [''a'', ''b''] None)
             \<union> set (compareCustomObjectData ?data [''a'', ''b''] exampleType None)
             \<union> set (compareCustomArrayData [] [''a'', ''b''] exampleType None)
             \<union> set (compareFeatureToggles [] [''a'', ''b''] None)"
    by blast
  have f1: "filter (\<lambda>i. obj_get [(''a'', JNum 1), (''b'', MISSING)] i = MISSING) [''a'', ''b''] = [''b'']"
    and f2: "filter (\<lambda>i. obj_get [(''a'', JNum 1), (''b'', MISSING)] i \<noteq> MISSING) [''a'', ''b''] = [''a'']"
    by (simp_all add: obj_get_def)
  from no_base_tie_break[OF nb m'] f1 f2 nb m show ?thesis
    by simp
qed

section \<open>Missing against a base value\<close>

lemma generic_emitted:
  assumes "p \<in> set (collectPaths (map snd data))"
    and "hasDifference (pathCollect data ids base p) ids base"
  shows "\<exists>r\<in>set (compareGenericData data ids base).
           path r = p \<and> values' r = valuesOf (pathCollect data ids base p)
           \<and> affectedInstances r = affectedOf (pathCollect data ids base p)
           \<and> type r = fst (classify (''Setting at '' @ quoted p) '' differs from base value in ''
                            (pathCollect data ids base p) ids base)"
proof -
  from assms(2) obtain r where r: "genericUnit data ids base p = Some r"
    using genericUnit_emits[of data ids base p] by auto
  with assms(1) have "r \<in> set (compareGenericData data ids base)"
    by (auto simp: compareGenericData_def Let_def in_map_filter)
  with genericUnit_Some[OF r] show ?thesis by blast
qed

lemma object_emitted:
  assumes "p \<in> set (comparisonFields ct)"
    and "hasDifference (pathCollect data ids base p) ids base"
  shows "\<exists>r\<in>set (compareCustomObjectData data ids ct base).
           path r = p \<and> values' r = valuesOf (pathCollect data ids base p)
           \<and> affectedInstances r = affectedOf (pathCollect data ids base p)
           \<and> type r = fst (classify (label ct @ '' field '' @ quoted p)
                            '' differs from base value in ''
                            (pathCollect data ids base p) ids base)"
proof -
  from assms(2) obtain r where r: "objectUnit data ids ct base p = Some r"
    using objectUnit_emits[of data ids ct base p] by auto
  with assms(1) have "r \<in> set (compareCustomObjectData data ids ct base)"
    by (auto simp: compareCustomObjectData_def in_map_filter)
  with objectUnit_Some[OF r] show ?thesis by blast
qed

lemma compareCustomArrayData_alt:
  "truthy_str (identifierField ct) \<Longrightarrow>
   compareCustomArrayData adata ids ct base =
     List.map_filter
       (arrayUnit (snd (buildItemMaps adata ids (the (identifierField ct)))) ids ct base)
       (fst (buildItemMaps adata ids (the (identifierField ct))))"
  by (simp add: compareCustomArrayData_def case_prod_beta)

lemma compareFeatureToggles_alt:
  "compareFeatureToggles tdata ids base =
     List.map_filter (toggleUnit (snd (buildFeatureMaps tdata ids)) ids base)
       (fst (buildFeatureMaps tdata ids))"
  by (simp add: compareFeatureToggles_def case_prod_beta)

lemma array_emitted:
  assumes "truthy_str (identifierField ct)"
    and "u \<in> set (fst (buildItemMaps adata ids (the (identifierField ct))))"
    and "hasDifference (arrayCollected adata ids ct base u) ids base"
  shows "\<exists>r\<in>set (compareCustomArrayData adata ids ct base).
           path r = u \<and> values' r = valuesOf (arrayCollected adata ids ct base u)
           \<and> affectedInstances r = affectedOf (arrayCollected adata ids ct base u)
           \<and> type r = fst (classify (label ct @ '' item '' @ quoted u) '' differs from base in ''
                            (arrayCollected adata ids ct base u) ids base)"
proof -
  let ?maps = "snd (buildItemMaps adata ids (the (identifierField ct)))"
  from assms(3) obtain r where r: "arrayUnit ?maps ids ct base u = Some r"
    using arrayUnit_emits[of ?maps ids ct base u] by (auto simp: arrayCollected_def)
  with assms(1,2) have "r \<in> set (compareCustomArrayData adata ids ct base)"
    by (auto simp: compareCustomArrayData_alt in_map_filter)
  with arrayUnit_Some[OF r] show ?thesis by (auto simp: arrayCollected_def)
qed

lemma toggle_emitted:
  assumes "f \<in> set (fst (buildFeatureMaps tdata ids))"
    and "toggleHasDifference (toggleCollected tdata ids base f) ids base
         \<or> length (affectedOf (toggleCollected tdata ids base f)) \<noteq> length ids"
  shows "\<exists>r\<in>set (compareFeatureToggles tdata ids base).
           path r = f \<and> values' r = valuesOf (toggleCollected tdata ids base f)
           \<and> affectedInstances r = affectedOf (toggleCollected tdata ids base f)
           \<and> type r = fst (toggleClassify (toggleCollected tdata ids base f) ids base f)"
proof -
  let ?maps = "snd (buildFeatureMaps tdata ids)"
  from assms(2) obtain r where r: "toggleUnit ?maps ids base f = Some r"
    using toggleUnit_emits[of ?maps ids base f] by (auto simp: toggleCollected_def)
  with assms(1) have "r \<in> set (compareFeatureToggles tdata ids base)"
    by (auto simp: compareFeatureToggles_alt in_map_filter)
  with toggleUnit_Some[OF r] show ?thesis by (auto simp: toggleCollected_def)
qed

text \<open>Base-relative mode with an instance that lacks the unit.\<close>

lemma cw_missing_vs_base:
  assumes hb: "hasBaseValueOf (collectWith pr base ids)"
    and nb: "stored pr (the base) \<noteq> MISSING"
    and i: "i \<in> set ids" "Some i \<noteq> base" "stored pr i = MISSING"
  shows "hasDifference (collectWith pr base ids) ids base"
    and "toggleHasDifference (collectWith pr base ids) ids base"
    and "fst (classify subject differs (collectWith pr base ids) ids base) = Deleted"
    and "fst (toggleClassify (collectWith pr base ids) ids base f) = Deleted"
proof -
  from cw_base_in_ids[OF hb] have b: "truthy_str base" "the base \<in> set ids" by auto
  show "hasDifference (collectWith pr base ids) ids base"
    using i by (auto simp: cw_hasDifference_base[OF hb])
  show "toggleHasDifference (collectWith pr base ids) ids base"
    using i by (auto simp: cw_toggleHasDifference_base[OF hb])
  obtain vs af h bv where c: "collectWith pr base ids = (vs, af, h, bv)"
    by (cases "collectWith pr base ids") auto
  have vs: "\<And>j. j \<in> set ids \<Longrightarrow> obj_get vs j = stored pr j"
    using cw_obj_get[of _ ids pr base] c by simp
  have m: "filter (\<lambda>j. obj_get vs j = MISSING) ids \<noteq> []"
    using i vs by (auto simp: filter_empty_conv)
  have p: "filter (\<lambda>j. obj_get vs j \<noteq> MISSING) ids \<noteq> []"
    using b nb vs by (auto simp: filter_empty_conv)
  have bm: "obj_get vs (the base) \<noteq> MISSING"
    using b nb vs by simp
  show "fst (classify subject differs (collectWith pr base ids) ids base) = Deleted"
    unfolding c using classify_partial_base[OF m p b(1)] bm by simp
  show "fst (toggleClassify (collectWith pr base ids) ids base f) = Deleted"
    unfolding c using toggleClassify_partial_base[OF m p b(1)] bm by simp
qed

lemma toggleValue_not_sentinel: "stored (toggleValue maps f) i = MISSING \<longleftrightarrow> toggleValue maps f i = None"
  by (auto simp: stored_def toggleValue_def split: option.splits)

lemma itemValue_not_sentinel: "stored (itemValue maps flds u) i = MISSING \<longleftrightarrow> itemValue maps flds u i = None"
  by (auto simp: stored_def itemValue_def itemValues_def split: option.splits)

lemma path_base_missing:
  assumes "i \<in> set ids" and "Some i \<noteq> base"
    and "hasBaseValueOf (pathCollect data ids base p)"
    and "obj_get (valuesOf (pathCollect data ids base p)) (the base) \<noteq> MISSING"
    and "obj_get (valuesOf (pathCollect data ids base p)) i = MISSING"
  shows "hasDifference (pathCollect data ids base p) ids base"
    and "fst (classify subject differs (pathCollect data ids base p) ids base) = Deleted"
proof -
  let ?pr = "pathValue data p"
  from assms(3) have hb: "hasBaseValueOf (collectWith ?pr base ids)"
    by (simp add: pathCollect_eq)
  from cw_base_in_ids[OF hb] have b: "the base \<in> set ids" by simp
  from assms(4) b have nb: "stored ?pr (the base) \<noteq> MISSING"
    by (simp add: pathCollect_eq cw_obj_get)
  from assms(1,5) have mi: "stored ?pr i = MISSING"
    by (simp add: pathCollect_eq cw_obj_get)
  show "hasDifference (pathCollect data ids base p) ids base"
    and "fst (classify subject differs (pathCollect data ids base p) ids base) = Deleted"
    using cw_missing_vs_base[OF hb nb assms(1,2) mi] by (simp_all add: pathCollect_eq)
qed

lemma toggle_base_missing:
  assumes "i \<in> set ids" and "Some i \<noteq> base"
    and "hasBaseValueOf (toggleCollected tdata ids base f)"
    and "obj_get (valuesOf (toggleCollected tdata ids base f)) i = MISSING"
  shows "toggleHasDifference (toggleCollected tdata ids base f) ids base"
    and "fst (toggleClassify (toggleCollected tdata ids base f) ids base f) = Deleted"
proof -
  let ?pr = "toggleValue (snd (buildFeatureMaps tdata ids)) f"
  have eq: "toggleCollected tdata ids base f = collectWith ?pr base ids"
    by (simp add: toggleCollected_def toggleCollect_eq)
  from assms(3) have hb: "hasBaseValueOf (collectWith ?pr base ids)"
    by (simp add: eq)
  from cw_base_in_ids[OF hb] have nb: "stored ?pr (the base) \<noteq> MISSING"
    by (simp add: toggleValue_not_sentinel)
  from assms(1,4) have mi: "stored ?pr i = MISSING"
    by (simp add: eq cw_obj_get)
  show "toggleHasDifference (toggleCollected tdata ids base f) ids base"
    and "fst (toggleClassify (toggleCollected tdata ids base f) ids base f) = Deleted"
    using cw_missing_vs_base[OF hb nb assms(1,2) mi] by (simp_all add: eq)
qed

lemma array_base_missing:
  assumes "i \<in> set ids" and "Some i \<noteq> base"
    and "hasBaseValueOf (arrayCollected adata ids ct base u)"
    and "obj_get (valuesOf (arrayCollected adata ids ct base u)) i = MISSING"
  shows "hasDifference (arrayCollected adata ids ct base u) ids base"
    and "fst (classify subject differs (arrayCollected adata ids ct base u) ids base) = Deleted"
proof -
  let ?pr = "itemValue (snd (buildItemMaps adata ids (the (identifierField ct))))
               (comparisonFields ct) u"
  have eq: "arrayCollected adata ids ct base u = collectWith ?pr base ids"
    by (simp add: arrayCollected_def itemCollect_eq)
  from assms(3) have hb: "hasBaseValueOf (collectWith ?pr base ids)"
    by (simp add: eq)
  from cw_base_in_ids[OF hb] have nb: "stored ?pr (the base) \<noteq> MISSING"
    by (simp add: itemValue_not_sentinel)
  from assms(1,4) have mi: "stored ?pr i = MISSING"
    by (simp add: eq cw_obj_get)
  show "hasDifference (arrayCollected adata ids ct base u) ids base"
    and "fst (classify subject differs (arrayCollected adata ids ct base u) ids base) = Deleted"
    using cw_missing_vs_base[OF hb nb assms(1,2) mi] by (simp_all add: eq)
qed

text \<open>
  C3, as amended. In base-relative mode (the collecting loop found a value for the base
  instance), a unit for which some other instance's entry is the sentinel is reported with
  type \<open>deleted\<close>, provided the base's own entry is not the string \<^verbatim>\<open>'MISSING'\<close>. For the feature
  toggles and the arrays of records the base's entry is a boolean or an object, and the
  proviso always holds; for the two object modes it is a hypothesis.
\<close>

theorem base_missing_is_deleted:
  assumes "i \<in> set ids" and "Some i \<noteq> base"
  shows
    "(hasBaseValueOf (pathCollect data ids base p)
        \<and> obj_get (valuesOf (pathCollect data ids base p)) (the base) \<noteq> MISSING
        \<and> obj_get (valuesOf (pathCollect data ids base p)) i = MISSING \<longrightarrow>
        (p \<in> set (collectPaths (map snd data)) \<longrightarrow>
           (\<exists>r\<in>set (compareGenericData data ids base). path r = p \<and> type r = Deleted))
        \<and> (p \<in> set (comparisonFields ct) \<longrightarrow>
           (\<exists>r\<in>set (compareCustomObjectData data ids ct base). path r = p \<and> type r = Deleted)))
     \<and> (f \<in> set (fst (buildFeatureMaps tdata ids))
        \<and> hasBaseValueOf (toggleCollected tdata ids base f)
        \<and> obj_get (valuesOf (toggleCollected tdata ids base f)) i = MISSING \<longrightarrow>
        (\<exists>r\<in>set (compareFeatureToggles tdata ids base). path r = f \<and> type r = Deleted))
     \<and> (truthy_str (identifierField ct')
        \<and> u \<in> set (fst (buildItemMaps adata ids (the (identifierField ct'))))
        \<and> hasBaseValueOf (arrayCollected adata ids ct' base u)
        \<and> obj_get (valuesOf (arrayCollected adata ids ct' base u)) i = MISSING \<longrightarrow>
        (\<exists>r\<in>set (compareCustomArrayData adata ids ct' base). path r = u \<and> type r = Deleted))"
proof (intro conjI impI)
  assume h: "hasBaseValueOf (pathCollect data ids base p)
        \<and> obj_get (valuesOf (pathCollect data ids base p)) (the base) \<noteq> MISSING
        \<and> obj_get (valuesOf (pathCollect data ids base p)) i = MISSING"
  note m = path_base_missing[OF assms, of data p]
  {
    assume p: "p \<in> set (collectPaths (map snd data))"
    from generic_emitted[OF p m(1)] m(2) h
    show "\<exists>r\<in>set (compareGenericData data ids base). path r = p \<and> type r = Deleted"
      by auto
  }
  {
    assume p: "p \<in> set (comparisonFields ct)"
    from object_emitted[OF p m(1)] m(2) h
    show "\<exists>r\<in>set (compareCustomObjectData data ids ct base). path r = p \<and> type r = Deleted"
      by auto
  }
next
  assume h: "f \<in> set (fst (buildFeatureMaps tdata ids))
        \<and> hasBaseValueOf (toggleCollected tdata ids base f)
        \<and> obj_get (valuesOf (toggleCollected tdata ids base f)) i = MISSING"
  note m = toggle_base_missing[OF assms, of tdata f]
  from h m have d: "toggleHasDifference (toggleCollected tdata ids base f) ids base"
    and t: "fst (toggleClassify (toggleCollected tdata ids base f) ids base f) = Deleted"
    by auto
  from h have f: "f \<in> set (fst (buildFeatureMaps tdata ids))" by simp
  from toggle_emitted[OF f, of base] d t
  show "\<exists>r\<in>set (compareFeatureToggles tdata ids base). path r = f \<and> type r = Deleted"
    by auto
next
  assume h: "truthy_str (identifierField ct')
        \<and> u \<in> set (fst (buildItemMaps adata ids (the (identifierField ct'))))
        \<and> hasBaseValueOf (arrayCollected adata ids ct' base u)
        \<and> obj_get (valuesOf (arrayCollected adata ids ct' base u)) i = MISSING"
  note m = array_base_missing[OF assms, of adata ct' u]
  from h m have d: "hasDifference (arrayCollected adata ids ct' base u) ids base"
    and t: "\<And>s d. fst (classify s d (arrayCollected adata ids ct' base u) ids base) = Deleted"
    by auto
  from h have u: "truthy_str (identifierField ct')"
    "u \<in> set (fst (buildItemMaps adata ids (the (identifierField ct'))))" by simp_all
  from array_emitted[OF u d] t
  show "\<exists>r\<in>set (compareCustomArrayData adata ids ct' base). path r = u \<and> type r = Deleted"
    by auto
qed

lemmas array_defs =
  compareCustomArrayData_def arrayUnit_def itemCollect_def itemValues_def buildItemMaps_def
  arrayCollected_def hasDifference_def classify_def

lemmas toggle_defs =
  compareFeatureToggles_def toggleUnit_def toggleCollect_def buildFeatureMaps_def
  toggleCollected_def toggleHasDifference_def toggleClassify_def

lemmas object_defs =
  compareCustomObjectData_def objectUnit_def pathCollect_def hasDifference_def classify_def

lemmas example_defs =
  partialSettings_def partialToggles_def partialRecords_def exampleType_def fieldType_def

lemma partial_settings_collected:
  "pathCollect partialSettings [''a'', ''b''] (Some ''a'') ''x'' =
     ([(''a'', JNum 1), (''b'', MISSING)], [''a''], True, JNum 1)"
  by (simp add: pathCollect_def js_defs example_defs)

lemma partial_settings_paths: "collectPaths (map snd partialSettings) = [''x'']"
  by (simp add: js_defs example_defs)

lemma partial_toggles_collected:
  "toggleCollected partialToggles [''a'', ''b''] (Some ''a'') ''f1'' =
     ([(''a'', JBool True), (''b'', MISSING)], [''a''], True, JBool True)"
  by (simp add: toggle_defs js_defs example_defs)

lemma partial_toggles_names: "fst (buildFeatureMaps partialToggles [''a'', ''b'']) = [''f1'']"
  by (simp add: toggle_defs js_defs example_defs)

lemma partial_records_collected:
  "arrayCollected partialRecords [''a'', ''b''] exampleType (Some ''a'') ''f1'' =
     ([(''a'', JObj [(''v'', JBool True)]), (''b'', MISSING)], [''a''], True,
      JObj [(''v'', JBool True)])"
  by (simp add: array_defs js_defs example_defs split_on.simps)

lemma partial_records_ids:
  "fst (buildItemMaps partialRecords [''a'', ''b''] ''id'') = [''f1'']"
  by (simp add: array_defs js_defs example_defs)

theorem base_missing_is_deleted_witness:
  "''b'' \<in> set [''a'', ''b''] \<and> Some ''b'' \<noteq> Some ''a''
   \<and> hasBaseValueOf (pathCollect partialSettings [''a'', ''b''] (Some ''a'') ''x'')
   \<and> obj_get (valuesOf (pathCollect partialSettings [''a'', ''b''] (Some ''a'') ''x'')) ''a'' \<noteq> MISSING
   \<and> obj_get (valuesOf (pathCollect partialSettings [''a'', ''b''] (Some ''a'') ''x'')) ''b'' = MISSING
   \<and> ''x'' \<in> set (collectPaths (map snd partialSettings))
   \<and> ''x'' \<in> set (comparisonFields fieldType)
   \<and> ''f1'' \<in> set (fst (buildFeatureMaps partialToggles [''a'', ''b'']))
   \<and> hasBaseValueOf (toggleCollected partialToggles [''a'', ''b''] (Some ''a'') ''f1'')
   \<and> obj_get (valuesOf (toggleCollected partialToggles [''a'', ''b''] (Some ''a'') ''f1'')) ''b'' = MISSING
   \<and> truthy_str (identifierField exampleType)
   \<and> ''f1'' \<in> set (fst (buildItemMaps partialRecords [''a'', ''b''] (the (identifierField exampleType))))
   \<and> hasBaseValueOf (arrayCollected partialRecords [''a'', ''b''] exampleType (Some ''a'') ''f1'')
   \<and> obj_get (valuesOf (arrayCollected partialRecords [''a'', ''b''] exampleType (Some ''a'') ''f1'')) ''b'' = MISSING
   \<and> (\<exists>r\<in>set (compareGenericData partialSettings [''a'', ''b''] (Some ''a'')).
         path r = ''x'' \<and> type r = Deleted)
   \<and> (\<exists>r\<in>set (compareCustomObjectData partialSettings [''a'', ''b''] fieldType (Some ''a'')).
         path r = ''x'' \<and> type r = Deleted)
   \<and> (\<exists>r\<in>set (compareFeatureToggles partialToggles [''a'', ''b''] (Some ''a'')).
         path r = ''f1'' \<and> type r = Deleted)
   \<and> (\<exists>r\<in>set (compareCustomArrayData partialRecords [''a'', ''b''] exampleType (Some ''a'')).
         path r = ''f1'' \<and> type r = Deleted)"
proof -
  have i: "''b'' \<in> set [''a'', ''b'']" and nb: "Some ''b'' \<noteq> Some ''a''"
    by simp_all
  have g: "hasBaseValueOf (pathCollect partialSettings [''a'', ''b''] (Some ''a'') ''x'')"
    "obj_get (valuesOf (pathCollect partialSettings [''a'', ''b''] (Some ''a'') ''x'')) ''a'' \<noteq> MISSING"
    "obj_get (valuesOf (pathCollect partialSettings [''a'', ''b''] (Some ''a'') ''x'')) ''b'' = MISSING"
    by (simp_all add: partial_settings_collected obj_get_def)
  have p: "''x'' \<in> set (collectPaths (map snd partialSettings))"
    "''x'' \<in> set (comparisonFields fieldType)"
    by (simp_all add: partial_settings_paths fieldType_def)
  have t: "''f1'' \<in> set (fst (buildFeatureMaps partialToggles [''a'', ''b'']))"
    "hasBaseValueOf (toggleCollected partialToggles [''a'', ''b''] (Some ''a'') ''f1'')"
    "obj_get (valuesOf (toggleCollected partialToggles [''a'', ''b''] (Some ''a'') ''f1'')) ''b'' = MISSING"
    by (simp_all add: partial_toggles_names partial_toggles_collected obj_get_def)
  have idf: "the (identifierField exampleType) = ''id''" "truthy_str (identifierField exampleType)"
    by (simp_all add: exampleType_def)
  have a: "''f1'' \<in> set (fst (buildItemMaps partialRecords [''a'', ''b''] (the (identifierField exampleType))))"
    "hasBaseValueOf (arrayCollected partialRecords [''a'', ''b''] exampleType (Some ''a'') ''f1'')"
    "obj_get (valuesOf (arrayCollected partialRecords [''a'', ''b''] exampleType (Some ''a'') ''f1'')) ''b'' = MISSING"
    by (simp_all add: idf partial_records_ids partial_records_collected obj_get_def)
  from base_missing_is_deleted[OF i nb, where data = partialSettings and p = "''x''"
         and ct = fieldType and f = "''f1''" and tdata = partialToggles
         and ct' = exampleType and u = "''f1''" and adata = partialRecords]
       i nb g p t idf(2) a
  show ?thesis by simp
qed

text \<open>
  C3 as stated fails where the base's value is itself the string \<^verbatim>\<open>'MISSING'\<close>. With the base
  \<^verbatim>\<open>a = {x:"MISSING"}\<close> and \<^verbatim>\<open>b = {}\<close>, the base has a value at \<^verbatim>\<open>x\<close> (the loop sets
  \<^verbatim>\<open>hasBaseValue\<close>), \<^verbatim>\<open>b\<close> lacks it, and the result for \<^verbatim>\<open>x\<close> has type \<open>edited\<close>: every entry
  reads as missing, none as present, and the type keeps its initial value.
\<close>

theorem base_sentinel_value_counterexample:
  "truthy_str (Some ''a'')
   \<and> getValueAtPath (JObj [(''x'', JStr ''MISSING'')]) ''x'' = JStr ''MISSING''
   \<and> pathCollect [(''a'', JObj [(''x'', JStr ''MISSING'')]), (''b'', JObj [])]
          [''a'', ''b''] (Some ''a'') ''x''
       = ([(''a'', MISSING), (''b'', MISSING)], [''a''], True, JStr ''MISSING'')
   \<and> compareGenericData [(''a'', JObj [(''x'', JStr ''MISSING'')]), (''b'', JObj [])]
          [''a'', ''b''] (Some ''a'')
       = [\<lparr> path = ''x'', type = Edited,
            values' = [(''a'', MISSING), (''b'', MISSING)],
            affectedInstances = [''a''],
            description = [] \<rparr>]"
  by (simp add: generic_defs js_defs)

section \<open>The equality test\<close>







section \<open>The identity maps\<close>

text \<open>The maps of the first loops.\<close>

lemma new_Map_snoc: "new_Map (es @ [(k, v)]) = map_set (new_Map es) k v"
  by (simp add: new_Map_def)

lemma map_of_new_Map: "map_of (new_Map es) = map_of (rev es)"
proof (induction es rule: rev_induct)
  case Nil
  show ?case by (simp add: new_Map_def)
next
  case (snoc e es)
  then show ?case
    by (cases e) (simp add: new_Map_snoc map_set_def update_conv')
qed

lemma map_of_map_set: "map_of (map_set m k v) = (map_of m)(k \<mapsto> v)"
  by (simp add: map_set_def update_conv')

lemma foldl_set_add: "set (foldl (\<lambda>names x. set_add names (g x)) acc xs) = set acc \<union> g ` set xs"
  by (induction xs arbitrary: acc) (auto simp: set_add_def)

lemma buildFeatureMaps_snoc:
  "buildFeatureMaps tdata (ids @ [i]) =
     (foldl (\<lambda>names f. set_add names (FeatureName f)) (fst (buildFeatureMaps tdata ids))
        (featuresOf tdata i),
      map_set (snd (buildFeatureMaps tdata ids)) i
        (new_Map (map (\<lambda>f. (FeatureName f, f)) (featuresOf tdata i))))"
  by (simp add: buildFeatureMaps_def featuresOf_def case_prod_beta Let_def)

lemma buildFeatureMaps_names:
  "set (fst (buildFeatureMaps tdata ids)) = (\<Union>i\<in>set ids. FeatureName ` set (featuresOf tdata i))"
proof (induction ids rule: rev_induct)
  case Nil
  show ?case by (simp add: buildFeatureMaps_def)
next
  case (snoc i ids)
  then show ?case
    by (auto simp: buildFeatureMaps_snoc foldl_set_add)
qed

lemma buildFeatureMaps_maps:
  "map_of (snd (buildFeatureMaps tdata ids)) =
     (\<lambda>i. if i \<in> set ids
          then Some (new_Map (map (\<lambda>f. (FeatureName f, f)) (featuresOf tdata i))) else None)"
proof (induction ids rule: rev_induct)
  case Nil
  show ?case by (simp add: buildFeatureMaps_def)
next
  case (snoc i ids)
  then show ?case
    by (auto simp: buildFeatureMaps_snoc map_of_map_set)
qed



text \<open>The same for the records of the array mode.\<close>

lemma item_fold:
  "foldl (\<lambda>(ids, m) item.
            let identifier = String_of (obj_get item idField)
            in if identifier \<noteq> [] then (set_add ids identifier, map_set m identifier item)
               else (ids, m)) (acc, m0) items =
     (foldl (\<lambda>ids e. set_add ids (fst e)) acc (identified idField items),
      foldl (\<lambda>m e. map_set m (fst e) (snd e)) m0 (identified idField items))"
  by (induction items arbitrary: acc m0) (auto simp: identified_def Let_def)

lemma buildItemMaps_snoc:
  "buildItemMaps adata (ids @ [i]) idField =
     (foldl (\<lambda>ids e. set_add ids (fst e)) (fst (buildItemMaps adata ids idField))
        (identified idField (itemsOf adata i)),
      map_set (snd (buildItemMaps adata ids idField)) i
        (new_Map (identified idField (itemsOf adata i))))"
  by (simp add: buildItemMaps_def itemsOf_def case_prod_beta Let_def item_fold[unfolded Let_def]
        new_Map_def)

lemma buildItemMaps_ids:
  "set (fst (buildItemMaps adata ids idField)) =
     (\<Union>i\<in>set ids. fst ` set (identified idField (itemsOf adata i)))"
proof (induction ids rule: rev_induct)
  case Nil
  show ?case by (simp add: buildItemMaps_def)
next
  case (snoc i ids)
  then show ?case
    by (auto simp: buildItemMaps_snoc foldl_set_add)
qed

lemma buildItemMaps_maps:
  "map_of (snd (buildItemMaps adata ids idField)) =
     (\<lambda>i. if i \<in> set ids then Some (new_Map (identified idField (itemsOf adata i))) else None)"
proof (induction ids rule: rev_induct)
  case Nil
  show ?case by (simp add: buildItemMaps_def)
next
  case (snoc i ids)
  then show ?case
    by (auto simp: buildItemMaps_snoc map_of_map_set)
qed

lemma itemValue_built:
  assumes "i \<in> set ids"
  shows "itemValue (snd (buildItemMaps adata ids idField)) flds u i =
           (case map_of (rev (identified idField (itemsOf adata i))) u of
              None \<Rightarrow> None
            | Some it \<Rightarrow> Some (itemValues flds it))"
  using assms
  by (simp add: itemValue_def map_get_def buildItemMaps_maps map_of_new_Map)

lemma itemValue_present_iff:
  assumes "i \<in> set ids"
  shows "(itemValue (snd (buildItemMaps adata ids idField)) flds u i \<noteq> None)
           = (u \<in> fst ` set (identified idField (itemsOf adata i)))"
proof -
  have "(map_of (rev (identified idField (itemsOf adata i))) u \<noteq> None)
          = (u \<in> fst ` set (rev (identified idField (itemsOf adata i))))"
    by (simp add: map_of_eq_None_iff)
  then show ?thesis
    by (auto simp: itemValue_built[OF assms] split: option.splits)
qed

section \<open>Values and affected instances\<close>

text \<open>The keys of an object written key by key are in enumeration order.\<close>

lemma array_index_inj:
  "array_index a = Some n \<Longrightarrow> array_index b = Some n \<Longrightarrow> a = b"
  by (auto simp: array_index_def split: if_splits)

lemma insert_index_end:
  "\<forall>p\<in>set ps. \<exists>m. array_index (fst p) = Some m \<and> m < n \<Longrightarrow>
     insert_index n k v ps = ps @ [(k, v)]"
  by (induction ps) auto

lemma update_keys_present:
  "k \<in> fst ` set kvs \<Longrightarrow> map fst (AList.update k v kvs) = map fst kvs"
  by (simp add: update_keys)

lemma insert_index_order:
  assumes "array_index k = Some n" and "k \<notin> fst ` set kvs"
    and "sorted_wrt before (map fst kvs)"
  shows "sorted_wrt before (map fst (insert_index n k v kvs))"
  using assms(2,3)
proof (induction kvs)
  case Nil
  show ?case by simp
next
  case (Cons p ps)
  from Cons.prems have ne: "k \<noteq> fst p" and kps: "k \<notin> fst ` set ps"
    and hd: "\<forall>j\<in>fst ` set ps. before (fst p) j" and tl: "sorted_wrt before (map fst ps)"
    by auto
  show ?case
  proof (cases "array_index (fst p)")
    case None
    with hd have "\<forall>j\<in>fst ` set ps. array_index j = None"
      by (auto simp: before_def)
    with None assms(1) have "\<forall>j\<in>fst ` set (p # ps). before k j"
      by (auto simp: before_def)
    with None Cons.prems(2) show ?thesis by auto
  next
    case (Some m)
    show ?thesis
    proof (cases "m < n")
      case True
      with Some assms(1) have "before (fst p) k" by (simp add: before_def)
      with Some True hd Cons.IH[OF kps tl] show ?thesis
        by (auto simp: set_insert_index)
    next
      case False
      from ne Some assms(1) have "m \<noteq> n" using array_index_inj by blast
      with False have nm: "n < m" by simp
      have "\<forall>j\<in>fst ` set (p # ps). before k j"
      proof
        fix j assume "j \<in> fst ` set (p # ps)"
        then consider "j = fst p" | "j \<in> fst ` set ps" by auto
        then show "before k j"
        proof cases
          case 1
          with Some assms(1) nm show ?thesis by (simp add: before_def)
        next
          case 2
          with hd have "before (fst p) j" by blast
          with Some assms(1) nm show ?thesis
            by (auto simp: before_def split: option.splits)
        qed
      qed
      with Some False Cons.prems(2) show ?thesis by auto
    qed
  qed
qed

lemma obj_set_order:
  assumes "enumerationOrder (map fst kvs)"
  shows "enumerationOrder (map fst (obj_set kvs k v))"
proof -
  from assms have d: "distinct (map fst kvs)" and s: "sorted_wrt before (map fst kvs)"
    by (simp_all add: enumerationOrder_def)
  have d': "distinct (map fst (obj_set kvs k v))"
    using d by (rule distinct_obj_set)
  have "sorted_wrt before (map fst (obj_set kvs k v))"
  proof (cases "k \<in> fst ` set kvs")
    case True
    then show ?thesis using s by (simp add: obj_set_def update_keys_present)
  next
    case False
    show ?thesis
    proof (cases "array_index k")
      case None
      then have "\<forall>j\<in>fst ` set kvs. before j k"
        by (auto simp: before_def split: option.splits)
      with None False s show ?thesis
        by (auto simp: obj_set_def sorted_wrt_append)
    next
      case (Some n)
      with False insert_index_order[OF Some False s] show ?thesis
        by (simp add: obj_set_def)
    qed
  qed
  with d' show ?thesis by (simp add: enumerationOrder_def)
qed

lemma cw_step_keys:
  "map fst (fst (collectWith pr base (ids @ [i])))
     = map fst (obj_set (fst (collectWith pr base ids)) i (stored pr i))"
  by (cases "collectWith pr base ids")
     (auto simp: collectWith_snoc collectStep_def stored_def split: option.splits)

lemma cw_order: "enumerationOrder (map fst (fst (collectWith pr base ids)))"
proof (induction ids rule: rev_induct)
  case Nil
  show ?case by (simp add: collectWith_Nil enumerationOrder_def)
next
  case (snoc i ids)
  then show ?case by (simp only: cw_step_keys obj_set_order)
qed

lemma cw_keys_ordered:
  "enumerationOrder ids \<Longrightarrow> map fst (fst (collectWith pr base ids)) = ids"
proof (induction ids rule: rev_induct)
  case Nil
  show ?case by (simp add: collectWith_Nil)
next
  case (snoc i ids)
  let ?vs = "fst (collectWith pr base ids)"
  from snoc.prems have o: "enumerationOrder ids" and ni: "i \<notin> set ids"
    and b: "\<forall>j\<in>set ids. before j i"
    by (auto simp: enumerationOrder_def sorted_wrt_append)
  from snoc.IH[OF o] have keys: "map fst ?vs = ids" .
  then have fs: "fst ` set ?vs = set ids" by (metis list.set_map)
  with ni have new: "i \<notin> fst ` set ?vs" by simp
  have "obj_set ?vs i (stored pr i) = ?vs @ [(i, stored pr i)]"
  proof (cases "array_index i")
    case None
    with new show ?thesis by (simp add: obj_set_def)
  next
    case (Some n)
    have "\<forall>p\<in>set ?vs. \<exists>m. array_index (fst p) = Some m \<and> m < n"
    proof
      fix p assume "p \<in> set ?vs"
      then have "fst p \<in> set ids" using fs by auto
      with b have "before (fst p) i" by blast
      with Some show "\<exists>m. array_index (fst p) = Some m \<and> m < n"
        by (auto simp: before_def split: option.splits)
    qed
    from insert_index_end[OF this] Some new show ?thesis by (simp add: obj_set_def)
  qed
  with keys show ?case by (simp add: cw_step_keys)
qed

lemma cw_keys_iff:
  "(map fst (fst (collectWith pr base ids)) = ids) = enumerationOrder ids"
  using cw_order[of pr base ids] cw_keys_ordered[of ids pr base] by auto

lemma filter_eq_iff':
  "(filter P xs = filter Q xs) = (\<forall>x\<in>set xs. P x = Q x)"
proof (induction xs)
  case Nil
  show ?case by simp
next
  case (Cons x xs)
  have a: "x # filter P xs \<noteq> filter Q xs" if "\<not> Q x" for P Q
  proof
    assume "x # filter P xs = filter Q xs"
    then have "x \<in> set (filter Q xs)" by (metis list.set_intros(1))
    with that show False by simp
  qed
  from Cons a[of Q P] a[of P Q] show ?case
    by (auto simp del: filter.simps simp add: filter.simps(2) dest: sym)
qed

lemma read_key_undef: "foldl read_key JUndef ks = JUndef"
  by (induction ks) (simp_all add: read_key_def)

lemma split_on_ne: "split_on d s \<noteq> []"
  by (induction s) (auto split: list.splits)

lemma getValueAtPath_falsy: "\<not> truthy d \<Longrightarrow> getValueAtPath d p = JUndef"
  by (cases "split_on CHR ''.'' p")
     (simp_all add: getValueAtPath_def split_on_ne read_key_def read_key_undef)

lemma cw_affected_iff:
  "(affectedOf (collectWith pr base ids)
      = filter (\<lambda>i. obj_get (valuesOf (collectWith pr base ids)) i \<noteq> MISSING) ids)
   = (\<forall>i\<in>set ids. pr i \<noteq> Some MISSING)"
proof -
  have "(filter (\<lambda>i. pr i \<noteq> None) ids = filter (\<lambda>i. stored pr i \<noteq> MISSING) ids)
          = (\<forall>i\<in>set ids. pr i \<noteq> Some MISSING)"
    unfolding filter_eq_iff'
    by (rule ball_cong) (auto simp: stored_def split: option.splits)
  then show ?thesis
    by (simp add: cw_affected cw_filter_values[of "\<lambda>v. v \<noteq> MISSING"])
qed

lemma pathValue_sentinel_iff:
  "(pathValue data p i \<noteq> Some MISSING) = (getValueAtPath (obj_get data i) p \<noteq> MISSING)"
  using getValueAtPath_falsy[of "obj_get data i" p]
  by (auto simp: pathValue_def)

lemma toggleValue_no_sentinel: "toggleValue maps f i \<noteq> Some MISSING"
  by (auto simp: toggleValue_def split: option.splits)

lemma itemValue_no_sentinel: "itemValue maps flds u i \<noteq> Some MISSING"
  by (auto simp: itemValue_def itemValues_def split: option.splits)

text \<open>What a result holds, read off the collecting loop.\<close>

lemma results_collected:
  assumes "r \<in> set (compareFeatureToggles tdata ids base)
             \<union> set (compareCustomArrayData adata ids ct base)
             \<union> set (compareGenericData data ids base)
             \<union> set (compareCustomObjectData data ids ct' base)"
  shows "\<exists>pr. values' r = valuesOf (collectWith pr base ids)"
proof -
  from assms consider (toggle) maps f where "toggleUnit maps ids base f = Some r"
    | (array) maps u where "arrayUnit maps ids ct base u = Some r"
    | (generic) p where "genericUnit data ids base p = Some r"
    | (object) p where "objectUnit data ids ct' base p = Some r"
    by (auto simp: compareCustomArrayData_def compareFeatureToggles_def compareGenericData_def
          compareCustomObjectData_def Let_def in_map_filter split: if_splits prod.splits)
  then show ?thesis
  proof cases
    case toggle
    from toggleUnit_Some[OF this] show ?thesis by (auto simp: toggleCollect_eq)
  next
    case array
    from arrayUnit_Some[OF this] show ?thesis by (auto simp: itemCollect_eq)
  next
    case generic
    from genericUnit_Some[OF this] show ?thesis by (auto simp: pathCollect_eq)
  next
    case object
    from objectUnit_Some[OF this] show ?thesis by (auto simp: pathCollect_eq)
  qed
qed

lemma toggle_result:
  assumes "r \<in> set (compareFeatureToggles tdata ids base)"
  shows "values' r = valuesOf (collectWith (toggleValue (snd (buildFeatureMaps tdata ids)) (path r)) base ids)"
    and "affectedInstances r = affectedOf (collectWith (toggleValue (snd (buildFeatureMaps tdata ids)) (path r)) base ids)"
proof -
  from assms obtain f where "toggleUnit (snd (buildFeatureMaps tdata ids)) ids base f = Some r"
    by (auto simp: compareFeatureToggles_alt in_map_filter)
  from toggleUnit_Some[OF this]
  show "values' r = valuesOf (collectWith (toggleValue (snd (buildFeatureMaps tdata ids)) (path r)) base ids)"
    and "affectedInstances r = affectedOf (collectWith (toggleValue (snd (buildFeatureMaps tdata ids)) (path r)) base ids)"
    by (simp_all add: toggleCollect_eq)
qed

lemma array_result:
  assumes "r \<in> set (compareCustomArrayData adata ids ct base)"
  shows "values' r = valuesOf (collectWith
            (itemValue (snd (buildItemMaps adata ids (the (identifierField ct))))
               (comparisonFields ct) (path r)) base ids)"
    and "affectedInstances r = affectedOf (collectWith
            (itemValue (snd (buildItemMaps adata ids (the (identifierField ct))))
               (comparisonFields ct) (path r)) base ids)"
proof -
  from assms have t: "truthy_str (identifierField ct)"
    by (auto simp: compareCustomArrayData_def split: if_splits)
  with assms obtain u where
    "arrayUnit (snd (buildItemMaps adata ids (the (identifierField ct)))) ids ct base u = Some r"
    by (auto simp: compareCustomArrayData_alt in_map_filter)
  from arrayUnit_Some[OF this]
  show "values' r = valuesOf (collectWith
            (itemValue (snd (buildItemMaps adata ids (the (identifierField ct))))
               (comparisonFields ct) (path r)) base ids)"
    and "affectedInstances r = affectedOf (collectWith
            (itemValue (snd (buildItemMaps adata ids (the (identifierField ct))))
               (comparisonFields ct) (path r)) base ids)"
    by (simp_all add: itemCollect_eq)
qed

lemma path_result:
  assumes "r \<in> set (compareGenericData data ids base)
             \<union> set (compareCustomObjectData data ids ct base)"
  shows "values' r = valuesOf (collectWith (pathValue data (path r)) base ids)"
    and "affectedInstances r = affectedOf (collectWith (pathValue data (path r)) base ids)"
proof -
  from assms consider (generic) p where "genericUnit data ids base p = Some r"
    | (object) p where "objectUnit data ids ct base p = Some r"
    by (auto simp: compareGenericData_def compareCustomObjectData_def Let_def in_map_filter)
  then have "values' r = valuesOf (collectWith (pathValue data (path r)) base ids)
     \<and> affectedInstances r = affectedOf (collectWith (pathValue data (path r)) base ids)"
  proof cases
    case generic
    from genericUnit_Some[OF this] show ?thesis by (simp add: pathCollect_eq)
  next
    case object
    from objectUnit_Some[OF this] show ?thesis by (simp add: pathCollect_eq)
  qed
  then show "values' r = valuesOf (collectWith (pathValue data (path r)) base ids)"
    and "affectedInstances r = affectedOf (collectWith (pathValue data (path r)) base ids)"
    by simp_all
qed

lemma toggle_entry:
  assumes "i \<in> set ids"
  shows "stored (toggleValue (snd (buildFeatureMaps tdata ids)) f) i =
           (case map_get (new_Map (map (\<lambda>t. (FeatureName t, t)) (featuresOf tdata i))) f of
              None \<Rightarrow> MISSING
            | Some t \<Rightarrow> JBool (CurrentValue t))"
  using assms
  by (simp add: stored_def toggleValue_def map_get_def buildFeatureMaps_maps
        split: option.splits)

lemma array_entry:
  assumes "i \<in> set ids"
  shows "stored (itemValue (snd (buildItemMaps adata ids idField)) flds u) i =
           (case map_get (new_Map (identified idField (itemsOf adata i))) u of
              None \<Rightarrow> MISSING
            | Some item \<Rightarrow> itemValues flds item)"
  using assms
  by (simp add: stored_def itemValue_def map_get_def buildItemMaps_maps
        split: option.splits)

text \<open>
  C2, as amended. In every result of the four comparisons the values have exactly one entry
  per instance id of the list: the keys are distinct and they are the ids of the list. The
  keys stand in the order of the list exactly when the list is in the order in which an
  object enumerates its keys: no id twice, the ids that are array indices first and
  ascending, the other ids after them. Each entry is the unit's value in that instance, or
  the sentinel where the instance lacks the unit: the current value of the feature with the
  result's name, the comparison fields of the record with the result's identifier, the
  value at the result's path. In the results of \<^verbatim>\<open>compareFeatureToggles\<close> and
  \<^verbatim>\<open>compareCustomArrayData\<close> the affected instances are the ids whose entry is not the
  sentinel, in the order of the list; in the results of \<^verbatim>\<open>compareGenericData\<close> and
  \<^verbatim>\<open>compareCustomObjectData\<close> they are exactly when no listed instance's value at the
  result's path is the string \<^verbatim>\<open>'MISSING'\<close>.
\<close>

theorem values_complete:
  "(\<forall>r\<in>set (compareFeatureToggles tdata ids base)
         \<union> set (compareCustomArrayData adata ids ct base)
         \<union> set (compareGenericData data ids base)
         \<union> set (compareCustomObjectData data ids ct' base).
      distinct (map fst (values' r)) \<and> set (map fst (values' r)) = set ids
      \<and> (map fst (values' r) = ids) = enumerationOrder ids)
   \<and> (\<forall>r\<in>set (compareFeatureToggles tdata ids base).
        (\<forall>i\<in>set ids. obj_get (values' r) i =
           (case map_get (new_Map (map (\<lambda>t. (FeatureName t, t)) (featuresOf tdata i))) (path r) of
              None \<Rightarrow> MISSING
            | Some t \<Rightarrow> JBool (CurrentValue t)))
        \<and> affectedInstances r = filter (\<lambda>i. obj_get (values' r) i \<noteq> MISSING) ids)
   \<and> (\<forall>r\<in>set (compareCustomArrayData adata ids ct base).
        (\<forall>i\<in>set ids. obj_get (values' r) i =
           (case map_get (new_Map (identified (the (identifierField ct)) (itemsOf adata i)))
                   (path r) of
              None \<Rightarrow> MISSING
            | Some item \<Rightarrow> itemValues (comparisonFields ct) item))
        \<and> affectedInstances r = filter (\<lambda>i. obj_get (values' r) i \<noteq> MISSING) ids)
   \<and> (\<forall>r\<in>set (compareGenericData data ids base)
         \<union> set (compareCustomObjectData data ids ct' base).
        (\<forall>i\<in>set ids. obj_get (values' r) i =
           (if truthy (obj_get data i) \<and> getValueAtPath (obj_get data i) (path r) \<noteq> JUndef
            then getValueAtPath (obj_get data i) (path r) else MISSING))
        \<and> (affectedInstances r = filter (\<lambda>i. obj_get (values' r) i \<noteq> MISSING) ids)
            = (\<forall>i\<in>set ids. getValueAtPath (obj_get data i) (path r) \<noteq> MISSING))"
proof (intro conjI)
  show "\<forall>r\<in>set (compareFeatureToggles tdata ids base)
         \<union> set (compareCustomArrayData adata ids ct base)
         \<union> set (compareGenericData data ids base)
         \<union> set (compareCustomObjectData data ids ct' base).
      distinct (map fst (values' r)) \<and> set (map fst (values' r)) = set ids
      \<and> (map fst (values' r) = ids) = enumerationOrder ids"
  proof
    fix r
    assume "r \<in> set (compareFeatureToggles tdata ids base)
         \<union> set (compareCustomArrayData adata ids ct base)
         \<union> set (compareGenericData data ids base)
         \<union> set (compareCustomObjectData data ids ct' base)"
    from results_collected[OF this] obtain pr
      where v: "values' r = valuesOf (collectWith pr base ids)" by blast
    show "distinct (map fst (values' r)) \<and> set (map fst (values' r)) = set ids
      \<and> (map fst (values' r) = ids) = enumerationOrder ids"
      using cw_keys_set[of pr base ids]
      by (simp add: v cw_distinct cw_keys_iff)
  qed
next
  show "\<forall>r\<in>set (compareFeatureToggles tdata ids base).
        (\<forall>i\<in>set ids. obj_get (values' r) i =
           (case map_get (new_Map (map (\<lambda>t. (FeatureName t, t)) (featuresOf tdata i))) (path r) of
              None \<Rightarrow> MISSING
            | Some t \<Rightarrow> JBool (CurrentValue t)))
        \<and> affectedInstances r = filter (\<lambda>i. obj_get (values' r) i \<noteq> MISSING) ids"
  proof (intro ballI conjI)
    fix r i
    assume r: "r \<in> set (compareFeatureToggles tdata ids base)" and i: "i \<in> set ids"
    show "obj_get (values' r) i =
           (case map_get (new_Map (map (\<lambda>t. (FeatureName t, t)) (featuresOf tdata i))) (path r) of
              None \<Rightarrow> MISSING
            | Some t \<Rightarrow> JBool (CurrentValue t))"
      by (simp only: toggle_result(1)[OF r] cw_obj_get[OF i] toggle_entry[OF i])
  next
    fix r
    assume r: "r \<in> set (compareFeatureToggles tdata ids base)"
    have "\<forall>i\<in>set ids. toggleValue (snd (buildFeatureMaps tdata ids)) (path r) i \<noteq> Some MISSING"
      by (simp add: toggleValue_no_sentinel)
    then show "affectedInstances r = filter (\<lambda>i. obj_get (values' r) i \<noteq> MISSING) ids"
      by (simp only: toggle_result[OF r] cw_affected_iff)
  qed
next
  show "\<forall>r\<in>set (compareCustomArrayData adata ids ct base).
        (\<forall>i\<in>set ids. obj_get (values' r) i =
           (case map_get (new_Map (identified (the (identifierField ct)) (itemsOf adata i)))
                   (path r) of
              None \<Rightarrow> MISSING
            | Some item \<Rightarrow> itemValues (comparisonFields ct) item))
        \<and> affectedInstances r = filter (\<lambda>i. obj_get (values' r) i \<noteq> MISSING) ids"
  proof (intro ballI conjI)
    fix r i
    assume r: "r \<in> set (compareCustomArrayData adata ids ct base)" and i: "i \<in> set ids"
    show "obj_get (values' r) i =
           (case map_get (new_Map (identified (the (identifierField ct)) (itemsOf adata i)))
                   (path r) of
              None \<Rightarrow> MISSING
            | Some item \<Rightarrow> itemValues (comparisonFields ct) item)"
      by (simp only: array_result(1)[OF r] cw_obj_get[OF i] array_entry[OF i])
  next
    fix r
    assume r: "r \<in> set (compareCustomArrayData adata ids ct base)"
    have "\<forall>i\<in>set ids. itemValue (snd (buildItemMaps adata ids (the (identifierField ct))))
               (comparisonFields ct) (path r) i \<noteq> Some MISSING"
      by (simp add: itemValue_no_sentinel)
    then show "affectedInstances r = filter (\<lambda>i. obj_get (values' r) i \<noteq> MISSING) ids"
      by (simp only: array_result[OF r] cw_affected_iff)
  qed
next
  show "\<forall>r\<in>set (compareGenericData data ids base)
         \<union> set (compareCustomObjectData data ids ct' base).
        (\<forall>i\<in>set ids. obj_get (values' r) i =
           (if truthy (obj_get data i) \<and> getValueAtPath (obj_get data i) (path r) \<noteq> JUndef
            then getValueAtPath (obj_get data i) (path r) else MISSING))
        \<and> (affectedInstances r = filter (\<lambda>i. obj_get (values' r) i \<noteq> MISSING) ids)
            = (\<forall>i\<in>set ids. getValueAtPath (obj_get data i) (path r) \<noteq> MISSING)"
  proof (intro ballI conjI)
    fix r i
    assume r: "r \<in> set (compareGenericData data ids base)
         \<union> set (compareCustomObjectData data ids ct' base)" and i: "i \<in> set ids"
    show "obj_get (values' r) i =
           (if truthy (obj_get data i) \<and> getValueAtPath (obj_get data i) (path r) \<noteq> JUndef
            then getValueAtPath (obj_get data i) (path r) else MISSING)"
      using i by (simp add: path_result(1)[OF r] cw_obj_get stored_def pathValue_def)
  next
    fix r
    assume r: "r \<in> set (compareGenericData data ids base)
         \<union> set (compareCustomObjectData data ids ct' base)"
    show "(affectedInstances r = filter (\<lambda>i. obj_get (values' r) i \<noteq> MISSING) ids)
            = (\<forall>i\<in>set ids. getValueAtPath (obj_get data i) (path r) \<noteq> MISSING)"
      by (simp only: path_result[OF r] cw_affected_iff pathValue_sentinel_iff)
  qed
qed

lemma array_index_small:
  "array_index ''1'' = Some 1" "array_index ''2'' = Some 2"
  "array_index ''a'' = None" "array_index ''b'' = None"
  by (simp_all add: array_index_def parse_nat_def digit_val_def show_nat.simps)

lemma numbered_order:
  "enumerationOrder [''1'', ''2'']" "\<not> enumerationOrder [''2'', ''1'']"
  "enumerationOrder [''a'', ''b'']"
  by (simp_all add: enumerationOrder_def before_def array_index_small)

lemma numbered_toggles_run:
  "compareFeatureToggles numberedToggles [''1'', ''2''] None =
     [\<lparr> path = ''f1'', type = Deleted,
         values' = [(''1'', JBool True), (''2'', MISSING)],
         affectedInstances = [''1''],
         description = ''Feature '' @ quoted ''f1''
            @ '' deleted in 1 instance(s), present in 1'' \<rparr>]"
  by (simp add: toggle_defs js_defs numberedToggles_def)

lemma partial_records_run:
  "compareCustomArrayData partialRecords [''a'', ''b''] exampleType None =
     [\<lparr> path = ''f1'', type = Deleted,
         values' = [(''a'', JObj [(''v'', JBool True)]), (''b'', MISSING)],
         affectedInstances = [''a''],
         description = ''Flag item '' @ quoted ''f1''
            @ '' deleted in 1 instance(s), present in 1'' \<rparr>]"
  by (simp add: array_defs js_defs example_defs split_on.simps)

lemma partial_settings_run:
  "compareGenericData partialSettings [''a'', ''b''] None =
     [\<lparr> path = ''x'', type = Deleted,
         values' = [(''a'', JNum 1), (''b'', MISSING)],
         affectedInstances = [''a''],
         description = ''Setting at '' @ quoted ''x''
            @ '' deleted in 1 instance(s), present in 1'' \<rparr>]"
  by (simp add: generic_defs js_defs example_defs)

theorem values_complete_witness:
  "enumerationOrder [''1'', ''2''] \<and> enumerationOrder [''a'', ''b'']
   \<and> (\<exists>r. r \<in> set (compareFeatureToggles numberedToggles [''1'', ''2''] None)
        \<and> path r = ''f1''
        \<and> map fst (values' r) = [''1'', ''2'']
        \<and> obj_get (values' r) ''1'' = JBool True
        \<and> obj_get (values' r) ''2'' = MISSING
        \<and> affectedInstances r = filter (\<lambda>i. obj_get (values' r) i \<noteq> MISSING) [''1'', ''2''])
   \<and> (\<exists>r. r \<in> set (compareCustomArrayData partialRecords [''a'', ''b''] exampleType None)
        \<and> path r = ''f1''
        \<and> map fst (values' r) = [''a'', ''b'']
        \<and> obj_get (values' r) ''a'' = JObj [(''v'', JBool True)]
        \<and> obj_get (values' r) ''b'' = MISSING
        \<and> affectedInstances r = filter (\<lambda>i. obj_get (values' r) i \<noteq> MISSING) [''a'', ''b''])
   \<and> getValueAtPath (obj_get partialSettings ''a'') ''x'' \<noteq> MISSING
   \<and> getValueAtPath (obj_get partialSettings ''b'') ''x'' \<noteq> MISSING
   \<and> (\<exists>r. r \<in> set (compareGenericData partialSettings [''a'', ''b''] None)
        \<and> path r = ''x''
        \<and> map fst (values' r) = [''a'', ''b'']
        \<and> obj_get (values' r) ''a'' = JNum 1
        \<and> obj_get (values' r) ''b'' = MISSING
        \<and> affectedInstances r = filter (\<lambda>i. obj_get (values' r) i \<noteq> MISSING) [''a'', ''b''])"
proof -
  let ?ns = "[''1'', ''2'']"
  let ?ids = "[''a'', ''b'']"
  let ?rt = "\<lparr> path = ''f1'', type = Deleted,
         values' = [(''1'', JBool True), (''2'', MISSING)],
         affectedInstances = [''1''],
         description = ''Feature '' @ quoted ''f1''
            @ '' deleted in 1 instance(s), present in 1'' \<rparr>"
  let ?ra = "\<lparr> path = ''f1'', type = Deleted,
         values' = [(''a'', JObj [(''v'', JBool True)]), (''b'', MISSING)],
         affectedInstances = [''a''],
         description = ''Flag item '' @ quoted ''f1''
            @ '' deleted in 1 instance(s), present in 1'' \<rparr>"
  let ?rg = "\<lparr> path = ''x'', type = Deleted,
         values' = [(''a'', JNum 1), (''b'', MISSING)],
         affectedInstances = [''a''],
         description = ''Setting at '' @ quoted ''x''
            @ '' deleted in 1 instance(s), present in 1'' \<rparr>"
  have rt: "?rt \<in> set (compareFeatureToggles numberedToggles ?ns None)"
    by (simp add: numbered_toggles_run)
  have ra: "?ra \<in> set (compareCustomArrayData partialRecords ?ids exampleType None)"
    by (simp add: partial_records_run)
  have rg: "?rg \<in> set (compareGenericData partialSettings ?ids None)"
    by (simp add: partial_settings_run)
  note n = values_complete[where ids = ?ns and tdata = numberedToggles and base = None
         and adata = partialRecords and ct = exampleType and data = partialSettings
         and ct' = fieldType]
  note a = values_complete[where ids = ?ids and tdata = partialToggles and base = None
         and adata = partialRecords and ct = exampleType and data = partialSettings
         and ct' = fieldType]
  have rt': "?rt \<in> set (compareFeatureToggles numberedToggles ?ns None)
         \<union> set (compareCustomArrayData partialRecords ?ns exampleType None)
         \<union> set (compareGenericData partialSettings ?ns None)
         \<union> set (compareCustomObjectData partialSettings ?ns fieldType None)"
    using rt by blast
  have ra': "?ra \<in> set (compareFeatureToggles partialToggles ?ids None)
         \<union> set (compareCustomArrayData partialRecords ?ids exampleType None)
         \<union> set (compareGenericData partialSettings ?ids None)
         \<union> set (compareCustomObjectData partialSettings ?ids fieldType None)"
    using ra by blast
  have rg': "?rg \<in> set (compareFeatureToggles partialToggles ?ids None)
         \<union> set (compareCustomArrayData partialRecords ?ids exampleType None)
         \<union> set (compareGenericData partialSettings ?ids None)
         \<union> set (compareCustomObjectData partialSettings ?ids fieldType None)"
    using rg by blast
  have rg'': "?rg \<in> set (compareGenericData partialSettings ?ids None)
         \<union> set (compareCustomObjectData partialSettings ?ids fieldType None)"
    using rg by (rule UnI1)
  have kt: "map fst (values' ?rt) = ?ns"
    using bspec[OF conjunct1[OF n] rt'] numbered_order(1) by blast
  have ka: "map fst (values' ?ra) = ?ids"
    using bspec[OF conjunct1[OF a] ra'] numbered_order(3) by blast
  have kg: "map fst (values' ?rg) = ?ids"
    using bspec[OF conjunct1[OF a] rg'] numbered_order(3) by blast
  have at: "affectedInstances ?rt = filter (\<lambda>i. obj_get (values' ?rt) i \<noteq> MISSING) ?ns"
    by (rule conjunct2[OF bspec[OF conjunct1[OF conjunct2[OF n]] rt]])
  have aa: "affectedInstances ?ra = filter (\<lambda>i. obj_get (values' ?ra) i \<noteq> MISSING) ?ids"
    by (rule conjunct2[OF bspec[OF conjunct1[OF conjunct2[OF conjunct2[OF a]]] ra]])
  have v: "getValueAtPath (obj_get partialSettings ''a'') ''x'' = JNum 1"
    "getValueAtPath (obj_get partialSettings ''b'') ''x'' = JUndef"
    by (simp_all add: js_defs example_defs)
  have px: "path ?rg = ''x''" by simp
  have ns: "getValueAtPath (obj_get partialSettings ''a'') ''x'' \<noteq> MISSING"
    "getValueAtPath (obj_get partialSettings ''b'') ''x'' \<noteq> MISSING"
    by (simp_all add: v)
  have hyp: "\<forall>i\<in>set ?ids. getValueAtPath (obj_get partialSettings i) (path ?rg) \<noteq> MISSING"
    using ns by simp
  have ag: "affectedInstances ?rg = filter (\<lambda>i. obj_get (values' ?rg) i \<noteq> MISSING) ?ids"
    by (rule iffD2[OF conjunct2[OF bspec[OF conjunct2[OF conjunct2[OF conjunct2[OF a]]] rg'']] hyp])
  have et: "obj_get (values' ?rt) ''1'' = JBool True" "obj_get (values' ?rt) ''2'' = MISSING"
    "path ?rt = ''f1''"
    by (simp_all add: obj_get_def)
  have ea: "obj_get (values' ?ra) ''a'' = JObj [(''v'', JBool True)]"
    "obj_get (values' ?ra) ''b'' = MISSING" "path ?ra = ''f1''"
    by (simp_all add: obj_get_def)
  have eg: "obj_get (values' ?rg) ''a'' = JNum 1" "obj_get (values' ?rg) ''b'' = MISSING"
    by (simp_all add: obj_get_def)
  have T: "\<exists>r. r \<in> set (compareFeatureToggles numberedToggles ?ns None)
        \<and> path r = ''f1''
        \<and> map fst (values' r) = ?ns
        \<and> obj_get (values' r) ''1'' = JBool True
        \<and> obj_get (values' r) ''2'' = MISSING
        \<and> affectedInstances r = filter (\<lambda>i. obj_get (values' r) i \<noteq> MISSING) ?ns"
    by (intro exI[of _ ?rt] conjI) (rule rt, rule et(3), rule kt, rule et(1), rule et(2), rule at)
  have A: "\<exists>r. r \<in> set (compareCustomArrayData partialRecords ?ids exampleType None)
        \<and> path r = ''f1''
        \<and> map fst (values' r) = ?ids
        \<and> obj_get (values' r) ''a'' = JObj [(''v'', JBool True)]
        \<and> obj_get (values' r) ''b'' = MISSING
        \<and> affectedInstances r = filter (\<lambda>i. obj_get (values' r) i \<noteq> MISSING) ?ids"
    by (intro exI[of _ ?ra] conjI) (rule ra, rule ea(3), rule ka, rule ea(1), rule ea(2), rule aa)
  have G: "\<exists>r. r \<in> set (compareGenericData partialSettings ?ids None)
        \<and> path r = ''x''
        \<and> map fst (values' r) = ?ids
        \<and> obj_get (values' r) ''a'' = JNum 1
        \<and> obj_get (values' r) ''b'' = MISSING
        \<and> affectedInstances r = filter (\<lambda>i. obj_get (values' r) i \<noteq> MISSING) ?ids"
    by (intro exI[of _ ?rg] conjI) (rule rg, rule px, rule kg, rule eg(1), rule eg(2), rule ag)
  from numbered_order(1) numbered_order(3) T A ns G show ?thesis
    by (intro conjI)
qed


text \<open>
  C2 as stated fails for a payload in which a real value is the string \<^verbatim>\<open>'MISSING'\<close>: with
  \<^verbatim>\<open>a = {x:"MISSING"}\<close> and \<^verbatim>\<open>b = {x:1}\<close> the result for \<^verbatim>\<open>x\<close> lists \<^verbatim>\<open>a\<close> among the affected
  instances, while the entry of \<^verbatim>\<open>a\<close> is the sentinel. The order fails for instance ids that
  are array indices: with the ids listed as \<^verbatim>\<open>2, 1\<close> the values are enumerated as
  \<^verbatim>\<open>1, 2\<close>.
\<close>

theorem sentinel_value_counterexample:
  "compareGenericData
     [(''a'', JObj [(''x'', JStr ''MISSING'')]), (''b'', JObj [(''x'', JNum 1)])]
     [''a'', ''b''] None
   = [\<lparr> path = ''x'', type = Deleted,
        values' = [(''a'', MISSING), (''b'', JNum 1)],
        affectedInstances = [''a'', ''b''],
        description = ''Setting at '' @ quoted ''x''
           @ '' deleted in 1 instance(s), present in 1'' \<rparr>]
   \<and> obj_get [(''a'', MISSING), (''b'', JNum 1)] ''a'' = MISSING
   \<and> array_index ''1'' = Some 1 \<and> array_index ''2'' = Some 2
   \<and> compareGenericData
         [(''1'', JObj [(''x'', JNum 2)]), (''2'', JObj [(''x'', JNum 1)])]
         [''2'', ''1''] None
       = [\<lparr> path = ''x'', type = Edited,
            values' = [(''1'', JNum 2), (''2'', JNum 1)],
            affectedInstances = [''2'', ''1''],
            description = ''Setting at '' @ quoted ''x''
               @ '' has inconsistent values across instances'' \<rparr>]"
  by (simp add: generic_defs js_defs)

section \<open>Identical values, partial presence, skipped records\<close>




text \<open>An object never prints like the sentinel.\<close>

lemma stringify_object_not_sentinel: "stringify (JObj kvs) \<noteq> stringify MISSING"
  by (simp add: quote_def)

lemma length_filter_less:
  "length (filter P xs) \<noteq> length xs \<Longrightarrow> \<exists>x\<in>set xs. \<not> P x"
  by (metis filter_True)

lemma array_partial_has_difference:
  assumes u: "u \<in> set (fst (buildItemMaps adata ids idField))"
    and len: "length (affectedOf (collectWith (itemValue (snd (buildItemMaps adata ids idField)) flds u) base ids))
               \<noteq> length ids"
  shows "hasDifference (collectWith (itemValue (snd (buildItemMaps adata ids idField)) flds u) base ids)
           ids base"
proof -
  let ?pr = "itemValue (snd (buildItemMaps adata ids idField)) flds u"
  from len obtain i where i: "i \<in> set ids" "?pr i = None"
    using length_filter_less[of "\<lambda>i. ?pr i \<noteq> None" ids] by (auto simp: cw_affected)
  then have si: "stored ?pr i = MISSING" by (simp add: stored_def)
  from u obtain j where j0: "j \<in> set ids" "u \<in> fst ` set (identified idField (itemsOf adata j))"
    unfolding buildItemMaps_ids by blast
  then have j: "j \<in> set ids" "?pr j \<noteq> None"
    using itemValue_present_iff[of j ids adata idField flds u] by blast+
  then obtain it where "?pr j = Some (itemValues flds it)"
    by (auto simp: itemValue_def split: option.splits)
  then have sj: "stringify (stored ?pr j) \<noteq> stringify MISSING"
    by (simp add: stored_def itemValues_def quote_def)
  show ?thesis
  proof (cases "hasBaseValueOf (collectWith ?pr base ids)")
    case True
    from cw_base_in_ids[OF True] i have "Some i \<noteq> base" by auto
    with i(1) si show ?thesis
      unfolding cw_hasDifference_base[OF True] by blast
  next
    case False
    from sj si have "stringify (stored ?pr j) \<noteq> stringify (stored ?pr i)"
      by simp
    with i(1) j(1) show ?thesis
      unfolding cw_hasDifference_sym[OF False] by blast
  qed
qed

text \<open>
  C9. In the two array modes a unit that some instance lacks (the affected instances are
  fewer than the instance ids) always gets a result. \<^verbatim>\<open>compareFeatureToggles\<close> has the rule
  in its condition; \<^verbatim>\<open>compareCustomArrayData\<close> has no such rule, and reports the unit all the
  same: the sentinel of the lacking instance never prints like the object of an instance
  that has the item, and it differs from a present base value.
\<close>

theorem partial_presence_reported:
  "(\<forall>f\<in>set (fst (buildFeatureMaps tdata ids)).
      length (affectedOf (toggleCollected tdata ids base f)) \<noteq> length ids \<longrightarrow>
      (\<exists>r\<in>set (compareFeatureToggles tdata ids base).
         path r = f \<and> affectedInstances r = affectedOf (toggleCollected tdata ids base f)))
   \<and> (truthy_str (identifierField ct) \<longrightarrow>
       (\<forall>u\<in>set (fst (buildItemMaps adata ids (the (identifierField ct)))).
          length (affectedOf (arrayCollected adata ids ct base u)) \<noteq> length ids \<longrightarrow>
          (\<exists>r\<in>set (compareCustomArrayData adata ids ct base).
             path r = u \<and> affectedInstances r = affectedOf (arrayCollected adata ids ct base u))))"
proof (intro conjI ballI impI)
  fix f
  assume "f \<in> set (fst (buildFeatureMaps tdata ids))"
    and "length (affectedOf (toggleCollected tdata ids base f)) \<noteq> length ids"
  from toggle_emitted[OF this(1), of base] this(2)
  show "\<exists>r\<in>set (compareFeatureToggles tdata ids base).
         path r = f \<and> affectedInstances r = affectedOf (toggleCollected tdata ids base f)"
    by auto
next
  fix u
  assume t: "truthy_str (identifierField ct)"
    and u: "u \<in> set (fst (buildItemMaps adata ids (the (identifierField ct))))"
    and len: "length (affectedOf (arrayCollected adata ids ct base u)) \<noteq> length ids"
  from array_partial_has_difference[OF u, of "comparisonFields ct" base] len
  have "hasDifference (arrayCollected adata ids ct base u) ids base"
    by (simp add: arrayCollected_def itemCollect_eq)
  from array_emitted[OF t u this]
  show "\<exists>r\<in>set (compareCustomArrayData adata ids ct base).
             path r = u \<and> affectedInstances r = affectedOf (arrayCollected adata ids ct base u)"
    by auto
qed

text \<open>
  C8, as amended. \<^verbatim>\<open>compareCustomArrayData\<close> skips a record exactly when \<^verbatim>\<open>String(...)\<close> of
  its identifier is the empty string: the identifier union holds the non-empty identifiers
  of the listed instances' records and nothing else, each instance's map has those of its
  own records as keys, every record in a map is filed under its own identifier, and no
  result has the empty path.
\<close>

theorem unidentified_records_skipped:
  "set (fst (buildItemMaps adata ids idField)) =
     {u. u \<noteq> [] \<and> (\<exists>i\<in>set ids. \<exists>item\<in>set (itemsOf adata i).
                       String_of (obj_get item idField) = u)}
   \<and> (\<forall>i\<in>set ids. \<exists>m. map_get (snd (buildItemMaps adata ids idField)) i = Some m
         \<and> fst ` set m = {u. u \<noteq> [] \<and> (\<exists>item\<in>set (itemsOf adata i).
                                          String_of (obj_get item idField) = u)}
         \<and> (\<forall>u item. map_get m u = Some item \<longrightarrow>
               item \<in> set (itemsOf adata i) \<and> String_of (obj_get item idField) = u \<and> u \<noteq> []))
   \<and> (\<forall>r\<in>set (compareCustomArrayData adata ids ct base). path r \<noteq> [])"
proof (intro conjI ballI)
  have keys: "\<And>i. fst ` set (identified idField (itemsOf adata i)) =
      {u. u \<noteq> [] \<and> (\<exists>item\<in>set (itemsOf adata i). String_of (obj_get item idField) = u)}"
    by (auto simp: identified_def image_iff)
  show u: "set (fst (buildItemMaps adata ids idField)) =
     {u. u \<noteq> [] \<and> (\<exists>i\<in>set ids. \<exists>item\<in>set (itemsOf adata i).
                       String_of (obj_get item idField) = u)}"
    by (auto simp: buildItemMaps_ids keys)
  {
    fix i assume i: "i \<in> set ids"
    let ?m = "new_Map (identified idField (itemsOf adata i))"
    have m: "map_get (snd (buildItemMaps adata ids idField)) i = Some ?m"
      using i by (simp add: map_get_def buildItemMaps_maps)
    have "fst ` set ?m = dom (map_of ?m)"
      by (simp add: dom_map_of_conv_image_fst)
    also have "\<dots> = fst ` set (identified idField (itemsOf adata i))"
      by (simp add: map_of_new_Map dom_map_of_conv_image_fst)
    finally have k: "fst ` set ?m = {u. u \<noteq> [] \<and> (\<exists>item\<in>set (itemsOf adata i).
                                          String_of (obj_get item idField) = u)}"
      by (simp add: keys)
    have v: "\<forall>u item. map_get ?m u = Some item \<longrightarrow>
               item \<in> set (itemsOf adata i) \<and> String_of (obj_get item idField) = u \<and> u \<noteq> []"
    proof (intro allI impI)
      fix u item assume "map_get ?m u = Some item"
      then have "map_of (rev (identified idField (itemsOf adata i))) u = Some item"
        by (simp add: map_get_def map_of_new_Map)
      then have "(u, item) \<in> set (rev (identified idField (itemsOf adata i)))"
        by (rule map_of_SomeD)
      then show "item \<in> set (itemsOf adata i) \<and> String_of (obj_get item idField) = u \<and> u \<noteq> []"
        by (auto simp: identified_def)
    qed
    from m k v
    show "\<exists>m. map_get (snd (buildItemMaps adata ids idField)) i = Some m
         \<and> fst ` set m = {u. u \<noteq> [] \<and> (\<exists>item\<in>set (itemsOf adata i).
                                          String_of (obj_get item idField) = u)}
         \<and> (\<forall>u item. map_get m u = Some item \<longrightarrow>
               item \<in> set (itemsOf adata i) \<and> String_of (obj_get item idField) = u \<and> u \<noteq> [])"
      by blast
  }
  {
    fix r assume r: "r \<in> set (compareCustomArrayData adata ids ct base)"
    then have t: "truthy_str (identifierField ct)"
      by (auto simp: compareCustomArrayData_def split: if_splits)
    from r obtain x where x: "x \<in> set (fst (buildItemMaps adata ids (the (identifierField ct))))"
      "arrayUnit (snd (buildItemMaps adata ids (the (identifierField ct)))) ids ct base x = Some r"
      by (auto simp: compareCustomArrayData_alt[OF t] in_map_filter)
    from x(1) have "x \<noteq> []"
      by (auto simp: buildItemMaps_ids identified_def)
    with arrayUnit_Some[OF x(2)] show "path r \<noteq> []" by simp
  }
qed

section \<open>Witnesses\<close>




lemma not_in_paths: "\<forall>r\<in>set rs. path r \<noteq> p \<Longrightarrow> p \<notin> path ` set rs"
  by blast



lemma blank_items:
  "itemsOf blankRecords ''a'' =
     [[(''id'', JStr []), (''v'', JNum 1)], [(''id'', JStr ''f1''), (''v'', JNum 2)]]"
  by (simp add: itemsOf_def blankRecords_def)

theorem unidentified_records_skipped_witness:
  "''a'' \<in> set [''a'']
   \<and> itemsOf blankRecords ''a'' =
        [[(''id'', JStr []), (''v'', JNum 1)], [(''id'', JStr ''f1''), (''v'', JNum 2)]]
   \<and> String_of (obj_get [(''id'', JStr []), (''v'', JNum 1)] ''id'') = []
   \<and> set (fst (buildItemMaps blankRecords [''a''] ''id'')) = {''f1''}
   \<and> (\<exists>m. map_get (snd (buildItemMaps blankRecords [''a''] ''id'')) ''a'' = Some m
          \<and> fst ` set m = {''f1''})
   \<and> [] \<notin> path ` set (compareCustomArrayData blankRecords [''a''] exampleType None)"
proof -
  note th = unidentified_records_skipped[of blankRecords "[''a'']" "''id''" exampleType None]
  have a: "''a'' \<in> set [''a'']" by simp
  have s: "String_of (obj_get [(''id'', JStr []), (''v'', JNum 1)] ''id'') = []"
    by (simp add: obj_get_def)
  have k: "{u. u \<noteq> [] \<and> (\<exists>item\<in>set (itemsOf blankRecords ''a'').
                             String_of (obj_get item ''id'') = u)} = {''f1''}"
    by (auto simp: blank_items obj_get_def)
  from conjunct1[OF th] k
  have u: "set (fst (buildItemMaps blankRecords [''a''] ''id'')) = {''f1''}"
    by simp
  from bspec[OF conjunct1[OF conjunct2[OF th]] a] k
  have m: "\<exists>m. map_get (snd (buildItemMaps blankRecords [''a''] ''id'')) ''a'' = Some m
          \<and> fst ` set m = {''f1''}"
    by auto
  have r: "[] \<notin> path ` set (compareCustomArrayData blankRecords [''a''] exampleType None)"
    by (rule not_in_paths[OF conjunct2[OF conjunct2[OF th]]])
  from a blank_items s u m r show ?thesis
    by (intro conjI)
qed

text \<open>
  C8 as stated fails in its examples: \<^verbatim>\<open>String(0)\<close>, \<^verbatim>\<open>String(false)\<close> and
  \<^verbatim>\<open>String(undefined)\<close> are the non-empty strings \<^verbatim>\<open>0\<close>, \<^verbatim>\<open>false\<close> and \<^verbatim>\<open>undefined\<close>, so
  records with the identifier 0 or false, or with no identifier field, are kept: each is in
  the identifier union and in its instance's map, and each gets a result.
\<close>

theorem falsy_identifier_counterexample:
  "String_of (JNum 0) = ''0'' \<and> String_of (JBool False) = ''false''
   \<and> String_of (obj_get [(''v'', JNum 3)] ''id'') = ''undefined''
   \<and> buildItemMaps oddRecords [''a'', ''b''] ''id''
       = ([''0'', ''false'', ''undefined''],
          [(''a'', [(''0'', [(''id'', JNum 0), (''v'', JNum 1)]),
                    (''false'', [(''id'', JBool False), (''v'', JNum 2)]),
                    (''undefined'', [(''v'', JNum 3)])]),
           (''b'', [])])
   \<and> map path (compareCustomArrayData oddRecords [''a'', ''b''] exampleType None)
       = [''0'', ''false'', ''undefined'']"
  by (simp add: array_defs js_defs oddRecords_def exampleType_def)

lemma partial_toggles_collected_nobase:
  "toggleCollected partialToggles [''a'', ''b''] None ''f1'' =
     ([(''a'', JBool True), (''b'', MISSING)], [''a''], False, JUndef)"
  by (simp add: toggle_defs js_defs example_defs)

lemma partial_records_collected_nobase:
  "arrayCollected partialRecords [''a'', ''b''] exampleType None ''f1'' =
     ([(''a'', JObj [(''v'', JBool True)]), (''b'', MISSING)], [''a''], False, JUndef)"
  by (simp add: array_defs js_defs example_defs)

theorem partial_presence_reported_witness:
  "''f1'' \<in> set (fst (buildFeatureMaps partialToggles [''a'', ''b'']))
   \<and> length (affectedOf (toggleCollected partialToggles [''a'', ''b''] None ''f1''))
        \<noteq> length [''a'', ''b'']
   \<and> (\<exists>r\<in>set (compareFeatureToggles partialToggles [''a'', ''b''] None).
         path r = ''f1'' \<and> affectedInstances r = [''a''])
   \<and> truthy_str (identifierField exampleType)
   \<and> ''f1'' \<in> set (fst (buildItemMaps partialRecords [''a'', ''b''] (the (identifierField exampleType))))
   \<and> length (affectedOf (arrayCollected partialRecords [''a'', ''b''] exampleType None ''f1''))
        \<noteq> length [''a'', ''b'']
   \<and> (\<exists>r\<in>set (compareCustomArrayData partialRecords [''a'', ''b''] exampleType None).
         path r = ''f1'' \<and> affectedInstances r = [''a''])"
proof -
  let ?ids = "[''a'', ''b'']"
  note th = partial_presence_reported[of partialToggles ?ids None exampleType partialRecords]
  have f: "''f1'' \<in> set (fst (buildFeatureMaps partialToggles ?ids))"
    by (simp add: partial_toggles_names)
  have lt: "length (affectedOf (toggleCollected partialToggles ?ids None ''f1'')) \<noteq> length ?ids"
    by (simp add: partial_toggles_collected_nobase)
  have idf: "the (identifierField exampleType) = ''id''" "truthy_str (identifierField exampleType)"
    by (simp_all add: exampleType_def)
  have u: "''f1'' \<in> set (fst (buildItemMaps partialRecords ?ids (the (identifierField exampleType))))"
    by (simp add: idf partial_records_ids)
  have la: "length (affectedOf (arrayCollected partialRecords ?ids exampleType None ''f1''))
              \<noteq> length ?ids"
    by (simp add: partial_records_collected_nobase)
  from mp[OF bspec[OF conjunct1[OF th] f] lt]
  have T: "\<exists>r\<in>set (compareFeatureToggles partialToggles ?ids None).
         path r = ''f1'' \<and> affectedInstances r = [''a'']"
    by (simp add: partial_toggles_collected_nobase)
  from mp[OF bspec[OF mp[OF conjunct2[OF th] idf(2)] u] la]
  have A: "\<exists>r\<in>set (compareCustomArrayData partialRecords ?ids exampleType None).
         path r = ''f1'' \<and> affectedInstances r = [''a'']"
    by (simp add: partial_records_collected_nobase)
  from f lt T idf(2) u la A show ?thesis
    by (intro conjI)
qed


section \<open>Nested objects\<close>

text \<open>
  C10. In generic-object mode every intermediate object path is a comparison unit of its
  own. The payloads \<^verbatim>\<open>{a:{x:1}}\<close> and \<^verbatim>\<open>{a:{x:2}}\<close> differ at the single leaf \<^verbatim>\<open>a.x\<close>;
  \<^verbatim>\<open>compareGenericData\<close> reports the leaf and its ancestor \<^verbatim>\<open>a\<close>, so the summary counts two
  differences for one differing leaf.
\<close>

theorem nested_leaf_reports_ancestors:
  "compareGenericData
     [(''a'', JObj [(''a'', JObj [(''x'', JNum 1)])]),
      (''b'', JObj [(''a'', JObj [(''x'', JNum 2)])])]
     [''a'', ''b''] None =
   [\<lparr> path = ''a'', type = Edited,
       values' = [(''a'', JObj [(''x'', JNum 1)]), (''b'', JObj [(''x'', JNum 2)])],
       affectedInstances = [''a'', ''b''],
       description =
         ''Setting at '' @ quoted ''a'' @ '' has inconsistent values across instances'' \<rparr>,
    \<lparr> path = ''a.x'', type = Edited,
       values' = [(''a'', JNum 1), (''b'', JNum 2)],
       affectedInstances = [''a'', ''b''],
       description =
         ''Setting at '' @ quoted ''a.x'' @ '' has inconsistent values across instances'' \<rparr>]
   \<and> totalDifferences (summarize (compareGenericData
         [(''a'', JObj [(''a'', JObj [(''x'', JNum 1)])]),
          (''b'', JObj [(''a'', JObj [(''x'', JNum 2)])])]
         [''a'', ''b''] None)) = 2"
  by (simp add: generic_defs js_defs summarize_def)

end
